theory Spec2Isabelle
  imports Main "HOL-Library.Word" "HOL-Library.Log_Nat" "HOL-Library.AList"
begin

section \<open>NASDAQ ITCH 5.0 parser: hourly running VWAP\<close>

text \<open>
  A shallow embedding of \<^verbatim>\<open>itch50_parser.py\<close>. The decompressed input file is a list of
  bytes; \<^verbatim>\<open>file.read(n)\<close> takes up to \<^verbatim>\<open>n\<close> bytes from its front. Python integers
  are \<^typ>\<open>int\<close>, dictionaries that are iterated are association lists in insertion
  order, dictionaries that are only looked up are maps. Every exception the script can
  raise is a value of \<open>error\<close>. The progress counters \<^verbatim>\<open>totalCount\<close> and
  \<^verbatim>\<open>runningCount\<close> and the \<^verbatim>\<open>print\<close> calls only write to the console and are left out.
\<close>

type_synonym byte = "8 word"

datatype error = KeyError | StructError | UnicodeDecodeError

subsection \<open>Python numbers\<close>

text \<open>
  A Python \<^verbatim>\<open>float\<close> is an IEEE 754 binary64 number. A finite one is modelled by the
  rational it denotes, and every operation rounds the exact result to 53 significant bits,
  ties to even. The exponent range is not bounded: the sums of this program stay far
  inside it for any input that fits on a disk, so overflow to infinity and subnormal
  numbers do not occur.
\<close>

definition round_half_even :: "rat \<Rightarrow> int" where
  "round_half_even x = (let f = \<lfloor>x\<rfloor>; d = x - of_int f in
     if d < 1 / 2 then f else if 1 / 2 < d then f + 1 else if even f then f else f + 1)"

definition ilog2 :: "rat \<Rightarrow> int" where
  \<comment> \<open>for \<open>0 < x\<close>: the \<open>k\<close> with \<open>2 ^ k \<le> x < 2 ^ (k + 1)\<close>\<close>
  "ilog2 x = (let (p, q) = quotient_of x; k = bitlen p - bitlen q in
     if 2 powi k \<le> x then k else k - 1)"

definition round53 :: "rat \<Rightarrow> rat" where
  "round53 x = (if x = 0 then 0 else
     let e = ilog2 \<bar>x\<bar> - 52 in of_int (round_half_even (x / 2 powi e)) * 2 powi e)"

text \<open>
  The bucket sums start as the \<^verbatim>\<open>int\<close> 0 and become \<^verbatim>\<open>float\<close> with the first trade
  added, so a number is one or the other.
\<close>

datatype pynum = PyInt int | PyFloat rat

definition to_float :: "int \<Rightarrow> rat" where
  \<comment> \<open>\<^verbatim>\<open>float(i)\<close>, the conversion Python applies to the \<^verbatim>\<open>int\<close> operand of a mixed operation\<close>
  "to_float i = round53 (of_int i)"

definition int_truediv :: "int \<Rightarrow> int \<Rightarrow> rat" where
  \<comment> \<open>\<^verbatim>\<open>a / b\<close> on two \<^verbatim>\<open>int\<close>s, \<open>b \<noteq> 0\<close>: the correctly rounded quotient\<close>
  "int_truediv a b = round53 (of_int a / of_int b)"

fun py_add :: "pynum \<Rightarrow> pynum \<Rightarrow> pynum" where
  "py_add (PyInt a) (PyInt b) = PyInt (a + b)"
| "py_add (PyInt a) (PyFloat b) = PyFloat (round53 (to_float a + b))"
| "py_add (PyFloat a) (PyInt b) = PyFloat (round53 (a + to_float b))"
| "py_add (PyFloat a) (PyFloat b) = PyFloat (round53 (a + b))"

definition float_mul_int :: "rat \<Rightarrow> int \<Rightarrow> rat" where
  \<comment> \<open>\<^verbatim>\<open>price * quantity\<close> with a \<^verbatim>\<open>float\<close> price and an \<^verbatim>\<open>int\<close> quantity\<close>
  "float_mul_int p q = round53 (p * to_float q)"

fun py_truediv :: "pynum \<Rightarrow> int \<Rightarrow> pynum" where
  \<comment> \<open>\<^verbatim>\<open>totalValue / totalQuantity\<close>, called with a nonzero \<^verbatim>\<open>int\<close> divisor only\<close>
  "py_truediv (PyInt a) b = PyFloat (int_truediv a b)"
| "py_truediv (PyFloat a) b = PyFloat (round53 (a / to_float b))"

subsection \<open>Hour labels\<close>

fun digits10 :: "nat \<Rightarrow> string" where
  "digits10 n = (if n < 10 then [''0123456789'' ! n]
     else digits10 (n div 10) @ [''0123456789'' ! (n mod 10)])"

declare digits10.simps [simp del]

definition format_d :: "int \<Rightarrow> string" where
  \<comment> \<open>\<^verbatim>\<open>"%d" % i\<close>\<close>
  "format_d i = (if i < 0 then CHR ''-'' # digits10 (nat (- i)) else digits10 (nat i))"

definition hour_label :: "int \<Rightarrow> string" where
  \<comment> \<open>\<^verbatim>\<open>"%d:00" % ((n + 11) % 12 + 1)\<close>: 12-hour times without AM/PM\<close>
  "hour_label n = format_d ((n + 11) mod 12 + 1) @ '':00''"

definition nsPerHour :: int where
  "nsPerHour = (10 ^ 9) * (60 * 60)"

definition market_hours :: "int list" where
  \<comment> \<open>\<^verbatim>\<open>range(10, 17)\<close>\<close>
  "market_hours = [10, 11, 12, 13, 14, 15, 16]"

definition calculateHour :: "int \<Rightarrow> int \<Rightarrow> string" where
  "calculateHour time endTime = hour_label (min (16 - ((endTime - time) div nsPerHour)) 16)"

subsection \<open>Hourly buckets\<close>

type_synonym tradeTuple = "pynum \<times> int"
type_synonym stock_trades = "string \<rightharpoonup> tradeTuple"
type_synonym trades = "(int \<times> stock_trades) list"
type_synonym order = "int \<times> rat \<times> int \<times> int"

fun init_hours :: "stock_trades \<Rightarrow> int list \<Rightarrow> stock_trades" where
  \<comment> \<open>the inner loop of \<^verbatim>\<open>hourlyMap\<close>, over \<^verbatim>\<open>range(10, 17)\<close>\<close>
  "init_hours stock_trades [] = stock_trades"
| "init_hours stock_trades (n # ns) =
     init_hours (stock_trades(hour_label n \<mapsto> (PyInt 0, 0))) ns"

fun hourlyMap_loop :: "trades \<Rightarrow> int list \<Rightarrow> trades" where
  \<comment> \<open>the outer loop of \<^verbatim>\<open>hourlyMap\<close>: \<^verbatim>\<open>trades[ID] = stock_trades\<close> for each ID\<close>
  "hourlyMap_loop trades [] = trades"
| "hourlyMap_loop trades (ID # stockIDs) =
     hourlyMap_loop (AList.update ID (init_hours Map.empty market_hours) trades) stockIDs"

definition hourlyMap :: "int list \<Rightarrow> int \<Rightarrow> int \<Rightarrow> trades" where
  "hourlyMap stockIDs openTime endTime = hourlyMap_loop [] stockIDs"

fun parseOrders :: "trades \<Rightarrow> order list \<Rightarrow> int \<Rightarrow> error + trades" where
  "parseOrders trades [] endTime = Inr trades"
| "parseOrders trades ((stock, price, quantity, time) # orders) endTime =
     (let hour = calculateHour time endTime in
      case map_of trades stock of
        None \<Rightarrow> Inl KeyError
      | Some st \<Rightarrow>
          (case st hour of
             None \<Rightarrow> Inl KeyError
           | Some (curValue, curQuantity) \<Rightarrow>
               parseOrders
                 (AList.update stock
                    (st(hour \<mapsto> (py_add curValue (PyFloat (float_mul_int price quantity)),
                                   curQuantity + quantity)))
                    trades)
                 orders endTime))"

subsection \<open>Binary fields\<close>

text \<open>
  \<^verbatim>\<open>struct.unpack\<close> with a big-endian format \<^verbatim>\<open>'>...'\<close> has no padding: it raises
  \<^verbatim>\<open>struct.error\<close> unless the buffer has exactly the size of the format, and each field
  sits at the sum of the sizes before it. A one-character \<^verbatim>\<open>str\<close> decoded from a byte
  below \<^verbatim>\<open>0x80\<close> is represented by that byte; \<^verbatim>\<open>bytes.decode()\<close> raises
  \<^verbatim>\<open>UnicodeDecodeError\<close> on a single byte from \<^verbatim>\<open>0x80\<close> up.
\<close>

definition ascii :: "char \<Rightarrow> byte" where
  "ascii c = of_char c"

definition be_uint :: "byte list \<Rightarrow> int" where
  \<comment> \<open>an unsigned big-endian integer (\<^verbatim>\<open>H\<close>, \<^verbatim>\<open>I\<close>, \<^verbatim>\<open>Q\<close>)\<close>
  "be_uint bs = foldl (\<lambda>acc b. acc * 256 + uint b) 0 bs"

definition field :: "nat \<Rightarrow> nat \<Rightarrow> byte list \<Rightarrow> byte list" where
  "field off len msg = take len (drop off msg)"

definition decodeTimestamp :: "byte list \<Rightarrow> int" where
  \<comment> \<open>\<^verbatim>\<open>struct.pack('>2s6s', ...)\<close> puts two zero bytes before the 6 bytes of the timestamp,
      \<^verbatim>\<open>struct.unpack('>Q', ...)\<close> reads the 8 bytes as one integer\<close>
  "decodeTimestamp timestamp = be_uint ([0, 0] @ timestamp)"

definition price_of :: "int \<Rightarrow> rat" where
  \<comment> \<open>\<^verbatim>\<open>data[7] / (10 ** 4)\<close>\<close>
  "price_of w = int_truediv w (10 ^ 4)"

subsection \<open>Ticker text\<close>

text \<open>
  \<^verbatim>\<open>data[3].decode().strip()\<close> on the 8 ticker bytes: strict UTF-8 decoding to code
  points (well-formed sequences only: no overlong forms, no surrogates, nothing above
  \<^verbatim>\<open>U+10FFFF\<close>), then removal of leading and trailing whitespace as \<^verbatim>\<open>str.isspace\<close>
  defines it.
\<close>

definition cont :: "byte \<Rightarrow> bool" where
  "cont b = (0x80 \<le> b \<and> b \<le> 0xBF)"

definition seq_len :: "byte \<Rightarrow> byte list \<Rightarrow> nat" where
  \<comment> \<open>the length of the well-formed sequence that starts with \<open>b0\<close>, 0 if there is none\<close>
  "seq_len b0 bs =
     (if b0 < 0x80 then 1
      else if 0xC2 \<le> b0 \<and> b0 \<le> 0xDF then
        (case bs of b1 # _ \<Rightarrow> if cont b1 then 2 else 0 | _ \<Rightarrow> 0)
      else if 0xE0 \<le> b0 \<and> b0 \<le> 0xEF then
        (case bs of b1 # b2 # _ \<Rightarrow>
           if cont b1 \<and> cont b2 \<and> (b0 = 0xE0 \<longrightarrow> 0xA0 \<le> b1) \<and> (b0 = 0xED \<longrightarrow> b1 \<le> 0x9F)
           then 3 else 0
         | _ \<Rightarrow> 0)
      else if 0xF0 \<le> b0 \<and> b0 \<le> 0xF4 then
        (case bs of b1 # b2 # b3 # _ \<Rightarrow>
           if cont b1 \<and> cont b2 \<and> cont b3 \<and> (b0 = 0xF0 \<longrightarrow> 0x90 \<le> b1) \<and> (b0 = 0xF4 \<longrightarrow> b1 \<le> 0x8F)
           then 4 else 0
         | _ \<Rightarrow> 0)
      else 0)"

definition code_point :: "byte list \<Rightarrow> nat" where
  \<comment> \<open>the code point of one well-formed sequence\<close>
  "code_point sq =
     (case sq of
        [b0] \<Rightarrow> unat b0
      | [b0, b1] \<Rightarrow> (unat b0 mod 32) * 64 + unat b1 mod 64
      | [b0, b1, b2] \<Rightarrow> ((unat b0 mod 16) * 64 + unat b1 mod 64) * 64 + unat b2 mod 64
      | [b0, b1, b2, b3] \<Rightarrow>
          (((unat b0 mod 8) * 64 + unat b1 mod 64) * 64 + unat b2 mod 64) * 64 + unat b3 mod 64
      | _ \<Rightarrow> 0)"

fun utf8_decode :: "byte list \<Rightarrow> error + nat list" where
  "utf8_decode [] = Inr []"
| "utf8_decode (b0 # bs) =
     (let n = seq_len b0 bs in
      if n = 0 then Inl UnicodeDecodeError
      else (case utf8_decode (drop (n - 1) bs) of
              Inl e \<Rightarrow> Inl e
            | Inr cs \<Rightarrow> Inr (code_point (b0 # take (n - 1) bs) # cs)))"

definition isspace :: "nat \<Rightarrow> bool" where
  "isspace c = ((9 \<le> c \<and> c \<le> 13) \<or> (28 \<le> c \<and> c \<le> 32) \<or> c = 133 \<or> c = 160 \<or> c = 5760
     \<or> (8192 \<le> c \<and> c \<le> 8202) \<or> c = 8232 \<or> c = 8233 \<or> c = 8239 \<or> c = 8287 \<or> c = 12288)"

definition strip :: "nat list \<Rightarrow> nat list" where
  "strip s = rev (dropWhile isspace (rev (dropWhile isspace s)))"

subsection \<open>Message lengths\<close>

definition m_map_items :: "(char \<times> nat) list" where
  "m_map_items =
     [(CHR ''S'', 11), (CHR ''R'', 38), (CHR ''H'', 24), (CHR ''Y'', 19), (CHR ''L'', 25),
      (CHR ''V'', 34), (CHR ''W'', 11), (CHR ''K'', 27), (CHR ''J'', 34), (CHR ''h'', 20),
      (CHR ''A'', 35), (CHR ''F'', 39), (CHR ''E'', 30), (CHR ''C'', 35), (CHR ''X'', 22),
      (CHR ''D'', 18), (CHR ''U'', 34), (CHR ''P'', 43), (CHR ''Q'', 39), (CHR ''B'', 18),
      (CHR ''I'', 49), (CHR ''N'', 19)]"

definition messageMap :: "byte \<rightharpoonup> nat" where
  "messageMap = map_of (map (\<lambda>(c, n). (ascii c, n)) m_map_items)"

subsection \<open>The decode loop of \<^verbatim>\<open>parseTrades\<close>\<close>

record pstate =
  openTime :: int
  endTime :: int
  stock_map :: "(int \<times> nat list) list"
  added_orders :: "int \<rightharpoonup> rat"
  filled_orders :: "order list"
  started :: bool

datatype ctl = Continue pstate | Break pstate

definition on_S :: "byte list \<Rightarrow> pstate \<Rightarrow> error + ctl" where
  \<comment> \<open>\<^verbatim>\<open>'>HH6sc'\<close>: the timestamp at offset 4, the event code at offset 10\<close>
  "on_S msg st =
     (if length msg \<noteq> 11 then Inl StructError
      else if 0x80 \<le> msg ! 10 then Inl UnicodeDecodeError
      else if msg ! 10 = ascii CHR ''Q'' then
        Inr (Continue (st\<lparr>openTime := decodeTimestamp (field 4 6 msg), started := True\<rparr>))
      else if msg ! 10 = ascii CHR ''M'' then
        Inr (Break (st\<lparr>endTime := decodeTimestamp (field 4 6 msg)\<rparr>))
      else Inr (Continue st))"

definition on_R :: "byte list \<Rightarrow> pstate \<Rightarrow> error + ctl" where
  \<comment> \<open>\<^verbatim>\<open>'>HH6s8sccIcc2scccccIc'\<close>: the stock ID at offset 0, the ticker at offset 10\<close>
  "on_R msg st =
     (if length msg \<noteq> 38 then Inl StructError
      else case utf8_decode (field 10 8 msg) of
          Inl e \<Rightarrow> Inl e
        | Inr cs \<Rightarrow>
            Inr (Continue (st\<lparr>stock_map :=
              AList.update (be_uint (field 0 2 msg)) (strip cs) (stock_map st)\<rparr>)))"

definition on_A :: "byte list \<Rightarrow> pstate \<Rightarrow> error + ctl" where
  \<comment> \<open>\<^verbatim>\<open>'>HH6sQcI8sI'\<close>: the reference at offset 10, the price at offset 31\<close>
  "on_A msg st =
     (if length msg \<noteq> 35 then Inl StructError
      else Inr (Continue (st\<lparr>added_orders :=
        (added_orders st)(be_uint (field 10 8 msg) \<mapsto> price_of (be_uint (field 31 4 msg)))\<rparr>)))"

definition on_F :: "byte list \<Rightarrow> pstate \<Rightarrow> error + ctl" where
  \<comment> \<open>\<^verbatim>\<open>'>HH6sQcI8sI4s'\<close>: as \<^verbatim>\<open>A\<close>, with 4 more bytes\<close>
  "on_F msg st =
     (if length msg \<noteq> 39 then Inl StructError
      else Inr (Continue (st\<lparr>added_orders :=
        (added_orders st)(be_uint (field 10 8 msg) \<mapsto> price_of (be_uint (field 31 4 msg)))\<rparr>)))"

definition on_E :: "byte list \<Rightarrow> pstate \<Rightarrow> error + ctl" where
  \<comment> \<open>\<^verbatim>\<open>'>HH6sQIQ'\<close>: stock ID 0, timestamp 4, reference 10, quantity 18\<close>
  "on_E msg st =
     (if length msg \<noteq> 30 then Inl StructError
      else case added_orders st (be_uint (field 10 8 msg)) of
          None \<Rightarrow> Inl KeyError
        | Some price \<Rightarrow>
            Inr (Continue (st\<lparr>filled_orders := filled_orders st @
              [(be_uint (field 0 2 msg), price, be_uint (field 18 4 msg),
                decodeTimestamp (field 4 6 msg))]\<rparr>)))"

definition on_C :: "byte list \<Rightarrow> pstate \<Rightarrow> error + ctl" where
  \<comment> \<open>\<^verbatim>\<open>'>HH6sQIQcI'\<close>: stock ID 0, timestamp 4, quantity 18, printable 30, price 31\<close>
  "on_C msg st =
     (if length msg \<noteq> 35 then Inl StructError
      else if 0x80 \<le> msg ! 30 then Inl UnicodeDecodeError
      else if msg ! 30 = ascii CHR ''Y'' then
        Inr (Continue (st\<lparr>filled_orders := filled_orders st @
          [(be_uint (field 0 2 msg), price_of (be_uint (field 31 4 msg)),
            be_uint (field 18 4 msg), decodeTimestamp (field 4 6 msg))]\<rparr>))
      else Inr (Continue st))"

definition on_U :: "byte list \<Rightarrow> pstate \<Rightarrow> error + ctl" where
  \<comment> \<open>\<^verbatim>\<open>'>HH6sQQII'\<close>: the new reference at offset 18, the price at offset 30\<close>
  "on_U msg st =
     (if length msg \<noteq> 34 then Inl StructError
      else Inr (Continue (st\<lparr>added_orders :=
        (added_orders st)(be_uint (field 18 8 msg) \<mapsto> price_of (be_uint (field 30 4 msg)))\<rparr>)))"

definition on_P :: "byte list \<Rightarrow> pstate \<Rightarrow> error + ctl" where
  \<comment> \<open>\<^verbatim>\<open>'>HH6sQcIQIQ'\<close>: stock ID 0, timestamp 4, quantity 19, price 31\<close>
  "on_P msg st =
     (if length msg \<noteq> 43 then Inl StructError
      else Inr (Continue (st\<lparr>filled_orders := filled_orders st @
        [(be_uint (field 0 2 msg), price_of (be_uint (field 31 4 msg)),
          be_uint (field 19 4 msg), decodeTimestamp (field 4 6 msg))]\<rparr>)))"

definition process :: "byte \<Rightarrow> byte list \<Rightarrow> pstate \<Rightarrow> error + ctl" where
  \<comment> \<open>the \<^verbatim>\<open>if\<close>/\<^verbatim>\<open>elif\<close> chain on \<^verbatim>\<open>m_type\<close>, in the order of the source\<close>
  "process m_type msg st =
     (if m_type = ascii CHR ''S'' then on_S msg st
      else if m_type = ascii CHR ''R'' then on_R msg st
      else if m_type = ascii CHR ''A'' then on_A msg st
      else if m_type = ascii CHR ''F'' then on_F msg st
      else if m_type = ascii CHR ''E'' \<and> started st then on_E msg st
      else if m_type = ascii CHR ''C'' \<and> started st then on_C msg st
      else if m_type = ascii CHR ''U'' then on_U msg st
      else if m_type = ascii CHR ''P'' \<and> started st then on_P msg st
      else Inr (Continue st))"

fun parse_loop :: "pstate \<Rightarrow> byte list \<Rightarrow> error + pstate \<times> byte list" where
  \<comment> \<open>the \<^verbatim>\<open>while m_type:\<close> loop; the result holds the bytes of the file left unread\<close>
  "parse_loop st [] = Inr (st, [])"
| "parse_loop st (m_type # file) =
     (if 0x80 \<le> m_type then Inl UnicodeDecodeError
      else case messageMap m_type of
          None \<Rightarrow> parse_loop st file
        | Some steps \<Rightarrow>
            (case process m_type (take steps file) st of
               Inl e \<Rightarrow> Inl e
             | Inr (Break st') \<Rightarrow> Inr (st', drop steps file)
             | Inr (Continue st') \<Rightarrow> parse_loop st' (drop steps file)))"

definition init_state :: pstate where
  "init_state = \<lparr>openTime = 0, endTime = 0, stock_map = [], added_orders = Map.empty,
     filled_orders = [], started = False\<rparr>"

definition parseTrades :: "byte list \<Rightarrow> error + (int \<times> nat list) list \<times> trades" where
  "parseTrades file =
     (case parse_loop init_state file of
        Inl e \<Rightarrow> Inl e
      | Inr (st, unread) \<Rightarrow>
          (case parseOrders (hourlyMap (map fst (stock_map st)) (openTime st) (endTime st))
                  (filled_orders st) (endTime st) of
             Inl e \<Rightarrow> Inl e
           | Inr trades \<Rightarrow> Inr (stock_map st, trades)))"

subsection \<open>Running VWAP and the output table\<close>

definition VWAP :: "tradeTuple \<Rightarrow> pynum \<Rightarrow> int \<Rightarrow> pynum \<times> int \<times> pynum" where
  "VWAP tradeTuple runningValue runningQuantity =
     (let (totalValue, totalQuantity) = tradeTuple;
          totalValue = py_add totalValue runningValue;
          totalQuantity = totalQuantity + runningQuantity;
          average = (if totalQuantity \<noteq> 0 then py_truediv totalValue totalQuantity else PyInt 0)
      in (totalValue, totalQuantity, average))"

fun vwap_hours ::
  "stock_trades \<Rightarrow> int list \<Rightarrow> pynum \<Rightarrow> int \<Rightarrow> error + (pynum \<times> int \<times> pynum) list" where
  \<comment> \<open>the loop over \<^verbatim>\<open>range(10, 17)\<close> in \<^verbatim>\<open>main\<close> for one security: the values of
      \<^verbatim>\<open>curValue, curQuantity, vwap\<close> after each pass\<close>
  "vwap_hours st [] curValue curQuantity = Inr []"
| "vwap_hours st (i # hours) curValue curQuantity =
     (case st (hour_label i) of
        None \<Rightarrow> Inl KeyError
      | Some tradeTuple \<Rightarrow>
          (case VWAP tradeTuple curValue curQuantity of
             (curValue', curQuantity', vwap) \<Rightarrow>
               (case vwap_hours st hours curValue' curQuantity' of
                  Inl e \<Rightarrow> Inl e
                | Inr rest \<Rightarrow> Inr ((curValue', curQuantity', vwap) # rest))))"

fun main_loop ::
  "(int \<times> nat list) list \<Rightarrow> trades \<Rightarrow> int list \<Rightarrow> error + (nat list \<times> pynum list) list" where
  \<comment> \<open>the loop over \<^verbatim>\<open>trades.keys()\<close>, with \<open>smap\<close> for \<^verbatim>\<open>stock_map\<close>: one row per security, its ticker and the VWAP
      appended to each hour's column\<close>
  "main_loop smap trades [] = Inr []"
| "main_loop smap trades (ID # IDs) =
     (case map_of smap ID of
        None \<Rightarrow> Inl KeyError
      | Some ticker \<Rightarrow>
          (case map_of trades ID of
             None \<Rightarrow> Inl KeyError
           | Some st \<Rightarrow>
               (case vwap_hours st market_hours (PyInt 0) 0 of
                  Inl e \<Rightarrow> Inl e
                | Inr hs \<Rightarrow>
                    (case main_loop smap trades IDs of
                       Inl e \<Rightarrow> Inl e
                     | Inr rows \<Rightarrow> Inr ((ticker, map (\<lambda>(v, q, vwap). vwap) hs) # rows)))))"

definition main :: "byte list \<Rightarrow> error + (nat list \<times> pynum list) list" where
  "main file =
     (case parseTrades file of
        Inl e \<Rightarrow> Inl e
      | Inr (smap, trades) \<Rightarrow> main_loop smap trades (map fst trades))"

subsection \<open>Message sequences\<close>

text \<open>
  A stretch of the stream that the loop reads without stopping is a sequence of tags with
  their payloads: a tag of the length table with as many payload bytes as the table says, or
  a byte that is no tag of the table, which the loop passes over on its own.
\<close>

type_synonym message = "byte \<times> byte list"

definition framed :: "message \<Rightarrow> bool" where
  "framed m = (fst m < 0x80 \<and>
     (case messageMap (fst m) of None \<Rightarrow> snd m = [] | Some steps \<Rightarrow> length (snd m) = steps))"

definition wire :: "message list \<Rightarrow> byte list" where
  "wire ms = concat (map (\<lambda>(m_type, msg). m_type # msg) ms)"

fun run :: "pstate \<Rightarrow> message list \<Rightarrow> error + ctl" where
  "run st [] = Inr (Continue st)"
| "run st ((m_type, msg) # ms) =
     (case messageMap m_type of
        None \<Rightarrow> run st ms
      | Some steps \<Rightarrow>
          (case process m_type msg st of
             Inl e \<Rightarrow> Inl e
           | Inr (Break st') \<Rightarrow> Inr (Break st')
           | Inr (Continue st') \<Rightarrow> run st' ms))"

definition registers :: "message \<Rightarrow> int option" where
  \<comment> \<open>the reference number that a message writes in \<^verbatim>\<open>added_orders\<close>, if it writes one\<close>
  "registers m =
     (if fst m = ascii CHR ''A'' \<or> fst m = ascii CHR ''F'' then Some (be_uint (field 10 8 (snd m)))
      else if fst m = ascii CHR ''U'' then Some (be_uint (field 18 8 (snd m)))
      else None)"

fun ctl_state :: "ctl \<Rightarrow> pstate" where
  "ctl_state (Continue st) = st"
| "ctl_state (Break st) = st"

subsection \<open>Example messages\<close>

text \<open>
  Payloads for stock ID 7, used to run the decoder on concrete streams: the market opens
  at time 1 and closes at time 9; an order with reference 5 is added at the wire price
  1002500, replaced by the reference 6 at the wire price 1005000, and executed.
\<close>

definition ex_open :: "byte list" where
  "ex_open = [0, 0, 0, 0, 0, 0, 0, 0, 0, 1, ascii CHR ''Q'']"

definition ex_close :: "byte list" where
  "ex_close = [0, 0, 0, 0, 0, 0, 0, 0, 0, 9, ascii CHR ''M'']"

definition ex_directory :: "byte list" where
  "ex_directory = [0, 7, 0, 0, 0, 0, 0, 0, 0, 1, 0x41, 0x42, 0x43, 0x20, 0x20, 0x20, 0x20, 0x20,
     0x51, 0x4E, 0, 0, 0, 100, 0x4E, 0x43, 0x5A, 0x20, 0x50, 0x4E, 0x20, 0x31, 0x4E,
     0, 0, 0, 0, 0x4E]"

definition ex_add :: "byte list" where
  "ex_add = [0, 7, 0, 0, 0, 0, 0, 0, 0, 2, 0, 0, 0, 0, 0, 0, 0, 5, 0x42, 0, 0, 0, 100,
     0x41, 0x42, 0x43, 0x20, 0x20, 0x20, 0x20, 0x20, 0x00, 0x0F, 0x4C, 0x04]"

definition ex_replace :: "byte list" where
  "ex_replace = [0, 7, 0, 0, 0, 0, 0, 0, 0, 3, 0, 0, 0, 0, 0, 0, 0, 5,
     0, 0, 0, 0, 0, 0, 0, 6, 0, 0, 0, 100, 0x00, 0x0F, 0x55, 0xC8]"

definition ex_execute :: "byte list" where
  "ex_execute = [0, 7, 0, 0, 0, 0, 0, 0, 0, 4, 0, 0, 0, 0, 0, 0, 0, 5, 0, 0, 0, 10,
     0, 0, 0, 0, 0, 0, 0, 1]"

definition ex_execute_price :: "byte list" where
  "ex_execute_price = [0, 7, 0, 0, 0, 0, 0, 0, 0, 4, 0, 0, 0, 0, 0, 0, 0, 5, 0, 0, 0, 10,
     0, 0, 0, 0, 0, 0, 0, 1, ascii CHR ''Y'', 0x00, 0x0F, 0x4C, 0x04]"

definition ex_trade :: "byte list" where
  "ex_trade = [0, 7, 0, 0, 0, 0, 0, 0, 0, 5, 0, 0, 0, 0, 0, 0, 0, 0, 0x42, 0, 0, 0, 100,
     0x41, 0x42, 0x43, 0x20, 0x20, 0x20, 0x20, 0x20, 0x00, 0x0F, 0x4C, 0x04,
     0, 0, 0, 0, 0, 0, 0, 1]"

definition ex_execute_hidden :: "byte list" where
  \<comment> \<open>as \<open>ex_execute_price\<close>, not printable\<close>
  "ex_execute_hidden = ex_execute_price[30 := ascii CHR ''N'']"

definition ex_trade_a :: "byte list" where
  \<comment> \<open>a trade of 100 shares at the wire price 1000000, at time 5\<close>
  "ex_trade_a = [0, 7, 0, 0, 0, 0, 0, 0, 0, 5, 0, 0, 0, 0, 0, 0, 0, 0, 0x42, 0, 0, 0, 100,
     0x41, 0x42, 0x43, 0x20, 0x20, 0x20, 0x20, 0x20, 0x00, 0x0F, 0x42, 0x40,
     0, 0, 0, 0, 0, 0, 0, 1]"

definition ex_trade_b :: "byte list" where
  \<comment> \<open>a trade of 100 shares at the wire price 2000000, one hour later: time 3600000000005\<close>
  "ex_trade_b = [0, 7, 0, 0, 0x03, 0x46, 0x30, 0xB8, 0xA0, 0x05, 0, 0, 0, 0, 0, 0, 0, 0, 0x42,
     0, 0, 0, 100, 0x41, 0x42, 0x43, 0x20, 0x20, 0x20, 0x20, 0x20, 0x00, 0x1E, 0x84, 0x80,
     0, 0, 0, 0, 0, 0, 0, 2]"

definition ex_close7 :: "byte list" where
  \<comment> \<open>the close at 7 hours: time 25200000000000\<close>
  "ex_close7 = [0, 0, 0, 0, 0x16, 0xEB, 0x55, 0x0C, 0x60, 0x00, ascii CHR ''M'']"

definition ex_morning :: "message list" where
  \<comment> \<open>the directory entry of stock 7, the open, and the first trade\<close>
  "ex_morning =
     [(ascii CHR ''R'', ex_directory), (ascii CHR ''S'', ex_open), (ascii CHR ''P'', ex_trade_a)]"

definition ex_session :: "byte list" where
  \<comment> \<open>a whole file: the morning, a second trade in the next hour, the close\<close>
  "ex_session = wire (ex_morning @ [(ascii CHR ''P'', ex_trade_b)]) @ ascii CHR ''S'' # ex_close7"

section \<open>Hour bucketing\<close>

lemma hour_label_vals:
  "hour_label 10 = ''10:00''" "hour_label 11 = ''11:00''" "hour_label 12 = ''12:00''"
  "hour_label 13 = ''1:00''" "hour_label 14 = ''2:00''" "hour_label 15 = ''3:00''"
  "hour_label 16 = ''4:00''" "hour_label 9 = ''9:00''"
  by (simp_all add: hour_label_def format_d_def digits10.simps)

lemma market_labels:
  "map hour_label market_hours =
     [''10:00'', ''11:00'', ''12:00'', ''1:00'', ''2:00'', ''3:00'', ''4:00'']"
  by (simp add: market_hours_def hour_label_vals)

lemma dom_init_hours: "dom (init_hours m ns) = dom m \<union> hour_label ` set ns"
  by (induction ns arbitrary: m) auto

text \<open>
  C1, as stated, fails twice. The labels are 12-hour times, so the close itself is in the
  bucket \<^verbatim>\<open>4:00\<close> and no bucket is called \<^verbatim>\<open>16:00\<close>; and \<^verbatim>\<open>min(..., 16)\<close> bounds the
  hour from above only, so a trade 7 hours before the close gets the label \<^verbatim>\<open>9:00\<close>,
  which is none of the seven buckets.
\<close>

theorem calculateHour_counterexample:
  "calculateHour 57600000000000 57600000000000 = ''4:00''
   \<and> calculateHour 57600000000000 57600000000000 \<noteq> ''16:00''
   \<and> calculateHour 32400000000000 57600000000000 = ''9:00''
   \<and> calculateHour 32400000000000 57600000000000 \<notin> set (map hour_label market_hours)"
  by (simp add: calculateHour_def nsPerHour_def hour_label_vals market_hours_def)

text \<open>
  C1 (amended): for every timestamp \<open>t\<close> at or before the close and less than 7 hours
  before it, \<^verbatim>\<open>calculateHour\<close> yields the label of hour 16 minus the number of whole
  hours to the close, which is one of the seven distinct bucket labels 10:00, 11:00,
  12:00, 1:00, 2:00, 3:00, 4:00 that \<^verbatim>\<open>hourlyMap\<close> creates; the close itself maps to
  4:00 and the timestamp 6 hours before the close maps to 10:00.
\<close>

theorem calculateHour_within_seven_hours:
  assumes "t \<le> c" and "c - t < 7 * nsPerHour"
  shows "calculateHour t c = hour_label (16 - (c - t) div nsPerHour)
    \<and> calculateHour t c \<in> set (map hour_label market_hours)
    \<and> map hour_label market_hours =
        [''10:00'', ''11:00'', ''12:00'', ''1:00'', ''2:00'', ''3:00'', ''4:00'']
    \<and> dom (init_hours Map.empty market_hours) = set (map hour_label market_hours)
    \<and> calculateHour c c = ''4:00''
    \<and> calculateHour (c - 6 * nsPerHour) c = ''10:00''"
proof -
  let ?h = "(c - t) div nsPerHour"
  have "0 \<le> ?h" "?h < 7"
    using assms unfolding nsPerHour_def by simp_all
  then have h: "?h \<in> {0, 1, 2, 3, 4, 5, 6}"
    by auto
  have eq: "calculateHour t c = hour_label (16 - ?h)"
    using \<open>0 \<le> ?h\<close> by (simp add: calculateHour_def)
  have mem: "hour_label (16 - ?h) \<in> set (map hour_label market_hours)"
    using h unfolding market_hours_def by auto
  have close: "calculateHour c c = ''4:00''"
    by (simp add: calculateHour_def hour_label_vals)
  have six: "calculateHour (c - 6 * nsPerHour) c = ''10:00''"
    by (simp add: calculateHour_def nsPerHour_def hour_label_vals)
  have keys: "dom (init_hours Map.empty market_hours) = set (map hour_label market_hours)"
    by (simp add: dom_init_hours)
  from eq mem market_labels keys close six show ?thesis
    by (intro conjI) simp_all
qed

theorem calculateHour_within_seven_hours_witness:
  "calculateHour 34200000000000 57600000000000 = ''10:00''
   \<and> calculateHour 57599999999999 57600000000000 = ''4:00''"
  using calculateHour_within_seven_hours [of 34200000000000 57600000000000]
    calculateHour_within_seven_hours [of 57599999999999 57600000000000]
  by (simp add: nsPerHour_def hour_label_vals)

section \<open>The decode loop on framed messages\<close>

lemma messageMap_tags:
  "messageMap (ascii CHR ''S'') = Some 11" "messageMap (ascii CHR ''R'') = Some 38"
  "messageMap (ascii CHR ''A'') = Some 35" "messageMap (ascii CHR ''F'') = Some 39"
  "messageMap (ascii CHR ''E'') = Some 30" "messageMap (ascii CHR ''C'') = Some 35"
  "messageMap (ascii CHR ''U'') = Some 34" "messageMap (ascii CHR ''P'') = Some 43"
  by (simp_all add: messageMap_def m_map_items_def ascii_def)

lemma messageMap_zero: "messageMap 0 = None"
  by (simp add: messageMap_def m_map_items_def ascii_def)

lemma messageMap_ascii: "messageMap t = Some n \<Longrightarrow> t < 0x80"
  by (auto simp: messageMap_def m_map_items_def ascii_def split: if_splits)

lemma ascii_tags:
  "ascii CHR ''S'' < 0x80" "ascii CHR ''E'' < 0x80" "ascii CHR ''U'' < 0x80"
  "ascii CHR ''A'' < 0x80" "ascii CHR ''F'' < 0x80" "ascii CHR ''C'' < 0x80"
  by (simp_all add: ascii_def)

lemma process_tag:
  "process (ascii CHR ''S'') msg st = on_S msg st"
  "process (ascii CHR ''R'') msg st = on_R msg st"
  "process (ascii CHR ''A'') msg st = on_A msg st"
  "process (ascii CHR ''F'') msg st = on_F msg st"
  "process (ascii CHR ''E'') msg st = (if started st then on_E msg st else Inr (Continue st))"
  "process (ascii CHR ''C'') msg st = (if started st then on_C msg st else Inr (Continue st))"
  "process (ascii CHR ''U'') msg st = on_U msg st"
  "process (ascii CHR ''P'') msg st = (if started st then on_P msg st else Inr (Continue st))"
  by (simp_all add: process_def ascii_def)

lemma parse_loop_message:
  assumes "messageMap m_type = Some (length msg)"
  shows "parse_loop st (m_type # msg @ rest) =
    (case process m_type msg st of
       Inl e \<Rightarrow> Inl e
     | Inr (Break st') \<Rightarrow> Inr (st', rest)
     | Inr (Continue st') \<Rightarrow> parse_loop st' rest)"
  using assms messageMap_ascii [OF assms]
  by (simp add: not_le [symmetric] split: sum.splits ctl.splits)

lemma parse_loop_skip:
  "messageMap m_type = None \<Longrightarrow> m_type < 0x80 \<Longrightarrow> parse_loop st (m_type # file) = parse_loop st file"
  by (simp add: not_le [symmetric])

lemma parse_loop_high: "0x80 \<le> m_type \<Longrightarrow> parse_loop st (m_type # file) = Inl UnicodeDecodeError"
  by simp

declare parse_loop.simps(2) [simp del]

lemma parse_loop_run:
  assumes "list_all framed ms" and "run st ms = Inr (Continue st')"
  shows "parse_loop st (wire ms @ rest) = parse_loop st' rest"
  using assms
proof (induction ms arbitrary: st)
  case Nil
  then show ?case by (simp add: wire_def)
next
  case (Cons m ms)
  obtain t msg where m: "m = (t, msg)" by (cases m)
  from Cons.prems have fr: "framed (t, msg)" and frs: "list_all framed ms"
    by (simp_all add: m)
  have w: "wire (m # ms) @ rest = t # msg @ wire ms @ rest"
    by (simp add: wire_def m)
  show ?case
  proof (cases "messageMap t")
    case None
    with fr have "msg = []" "t < 0x80" by (simp_all add: framed_def)
    moreover from Cons.prems(2) None have "run st ms = Inr (Continue st')" by (simp add: m)
    ultimately show ?thesis
      using None Cons.IH [OF frs] by (simp add: w parse_loop_skip)
  next
    case (Some n)
    with fr have len: "messageMap t = Some (length msg)" by (simp add: framed_def)
    from Cons.prems(2) Some obtain st1 where
      p: "process t msg st = Inr (Continue st1)" and r: "run st1 ms = Inr (Continue st')"
      by (auto simp: m split: sum.splits ctl.splits)
    show ?thesis
      using p Cons.IH [OF frs r] by (simp add: w parse_loop_message [OF len])
  qed
qed

lemma parse_loop_run_error:
  assumes "list_all framed ms" and "run st ms = Inl e"
  shows "parse_loop st (wire ms @ rest) = Inl e"
  using assms
proof (induction ms arbitrary: st)
  case Nil
  then show ?case by simp
next
  case (Cons m ms)
  obtain t msg where m: "m = (t, msg)" by (cases m)
  from Cons.prems have fr: "framed (t, msg)" and frs: "list_all framed ms"
    by (simp_all add: m)
  have w: "wire (m # ms) @ rest = t # msg @ wire ms @ rest"
    by (simp add: wire_def m)
  show ?case
  proof (cases "messageMap t")
    case None
    with fr have "msg = []" "t < 0x80" by (simp_all add: framed_def)
    moreover from Cons.prems(2) None have "run st ms = Inl e" by (simp add: m)
    ultimately show ?thesis
      using None Cons.IH [OF frs] by (simp add: w parse_loop_skip)
  next
    case (Some n)
    with fr have len: "messageMap t = Some (length msg)" by (simp add: framed_def)
    from Cons.prems(2) Some consider
      "process t msg st = Inl e" | st1 where "process t msg st = Inr (Continue st1)" "run st1 ms = Inl e"
      by (auto simp: m split: sum.splits ctl.splits)
    then show ?thesis
    proof cases
      case 1
      then show ?thesis by (simp add: w parse_loop_message [OF len])
    next
      case 2
      then show ?thesis using Cons.IH [OF frs] by (simp add: w parse_loop_message [OF len])
    qed
  qed
qed



lemma on_S_open:
  "length msg = 11 \<Longrightarrow> msg ! 10 = ascii CHR ''Q'' \<Longrightarrow>
   on_S msg st = Inr (Continue (st\<lparr>openTime := decodeTimestamp (field 4 6 msg), started := True\<rparr>))"
  by (simp add: on_S_def) (simp add: ascii_def)

lemma on_S_close:
  "length msg = 11 \<Longrightarrow> msg ! 10 = ascii CHR ''M'' \<Longrightarrow>
   on_S msg st = Inr (Break (st\<lparr>endTime := decodeTimestamp (field 4 6 msg)\<rparr>))"
  by (simp add: on_S_def) (simp add: ascii_def)

lemma process_added_orders:
  assumes "process t msg st = Inr c" and "registers (t, msg) \<noteq> Some r"
  shows "added_orders (ctl_state c) r = added_orders st r"
  using assms
  by (auto simp: process_def registers_def on_S_def on_R_def on_A_def on_F_def on_E_def
        on_C_def on_U_def on_P_def split: if_splits sum.splits option.splits)

lemma process_dom_mono:
  assumes "process t msg st = Inr c"
  shows "dom (added_orders st) \<subseteq> dom (added_orders (ctl_state c))"
  using assms
  by (auto simp: process_def on_S_def on_R_def on_A_def on_F_def on_E_def
        on_C_def on_U_def on_P_def split: if_splits sum.splits option.splits)

lemma run_added_orders:
  assumes "run st ms = Inr (Continue st')" and "\<forall>m \<in> set ms. registers m \<noteq> Some r"
  shows "added_orders st' r = added_orders st r"
  using assms
proof (induction ms arbitrary: st)
  case Nil
  then show ?case by simp
next
  case (Cons m ms)
  obtain t msg where m: "m = (t, msg)" by (cases m)
  show ?case
  proof (cases "messageMap t")
    case None
    with Cons show ?thesis by (simp add: m)
  next
    case (Some n)
    with Cons.prems(1) obtain st1 where
      p: "process t msg st = Inr (Continue st1)" and r: "run st1 ms = Inr (Continue st')"
      by (auto simp: m split: sum.splits ctl.splits)
    from Cons.prems(2) have "registers (t, msg) \<noteq> Some r" by (simp add: m)
    from process_added_orders [OF p this] have "added_orders st1 r = added_orders st r" by simp
    moreover have "added_orders st' r = added_orders st1 r"
      using Cons.IH [OF r] Cons.prems(2) by simp
    ultimately show ?thesis by simp
  qed
qed

lemma run_dom_mono:
  assumes "run st ms = Inr (Continue st')"
  shows "dom (added_orders st) \<subseteq> dom (added_orders st')"
  using assms
proof (induction ms arbitrary: st)
  case Nil
  then show ?case by simp
next
  case (Cons m ms)
  obtain t msg where m: "m = (t, msg)" by (cases m)
  show ?case
  proof (cases "messageMap t")
    case None
    with Cons show ?thesis by (simp add: m)
  next
    case (Some n)
    with Cons.prems(1) obtain st1 where
      p: "process t msg st = Inr (Continue st1)" and r: "run st1 ms = Inr (Continue st')"
      by (auto simp: m split: sum.splits ctl.splits)
    from process_dom_mono [OF p] Cons.IH [OF r] show ?thesis by auto
  qed
qed

lemma run_append:
  "run st (ms @ ns) = (case run st ms of Inr (Continue st') \<Rightarrow> run st' ns | r \<Rightarrow> r)"
  by (induction ms arbitrary: st) (auto split: option.splits sum.splits ctl.splits)

lemma parseTrades_error: "parse_loop init_state file = Inl e \<Longrightarrow> parseTrades file = Inl e"
  by (simp add: parseTrades_def)

lemma main_error: "parseTrades file = Inl e \<Longrightarrow> main file = Inl e"
  by (simp add: main_def)

lemma example_lengths:
  "length ex_open = 11" "length ex_close = 11" "length ex_directory = 38" "length ex_add = 35"
  "length ex_replace = 34" "length ex_execute = 30" "length ex_execute_price = 35"
  "length ex_trade = 43"
  by (simp_all add: ex_open_def ex_close_def ex_directory_def ex_add_def ex_replace_def
      ex_execute_def ex_execute_price_def ex_trade_def)

lemma example_codes:
  "ex_open ! 10 = ascii CHR ''Q''" "ex_close ! 10 = ascii CHR ''M''"
  "ex_execute_price ! 30 = ascii CHR ''Y''"
  by (simp_all add: ex_open_def ex_close_def ex_execute_price_def)

lemma example_times:
  "decodeTimestamp (field 4 6 ex_open) = 1" "decodeTimestamp (field 4 6 ex_close) = 9"
  "decodeTimestamp (field 4 6 ex_execute) = 4" "decodeTimestamp (field 4 6 ex_execute_price) = 4"
  "decodeTimestamp (field 4 6 ex_trade) = 5"
  by (simp_all add: ex_open_def ex_close_def ex_execute_def ex_execute_price_def ex_trade_def
      decodeTimestamp_def field_def be_uint_def)

lemma run_open: "run init_state [(ascii CHR ''S'', ex_open)] =
    Inr (Continue (init_state\<lparr>openTime := 1, started := True\<rparr>))"
  by (simp add: messageMap_tags process_tag on_S_open example_lengths example_codes example_times)

lemma framed_open: "list_all framed [(ascii CHR ''S'', ex_open)]"
  by (simp add: framed_def messageMap_tags example_lengths ascii_tags)

section \<open>Unrecognized tags\<close>

text \<open>
  C2, as stated, fails: a byte that is no tag of the length table does not stop the loop.
  Here the byte 0 comes first, and the system message after it is still read and opens
  the market.
\<close>

theorem unrecognized_tag_counterexample:
  "messageMap 0 = None
   \<and> parse_loop init_state
        (0 # ascii CHR ''S'' # [0, 0, 0, 0, 0, 0, 0, 0, 0, 1, ascii CHR ''Q''])
      = Inr (init_state\<lparr>openTime := 1, started := True\<rparr>, [])"
proof -
  let ?msg = "[0, 0, 0, 0, 0, 0, 0, 0, 0, 1, ascii CHR ''Q''] :: byte list"
  have "parse_loop init_state (0 # ascii CHR ''S'' # ?msg @ []) = parse_loop init_state (ascii CHR ''S'' # ?msg @ [])"
    by (rule parse_loop_skip) (simp_all add: messageMap_zero)
  also have "\<dots> = Inr (init_state\<lparr>openTime := 1, started := True\<rparr>, [])"
    by (subst parse_loop_message)
      (simp_all add: messageMap_tags process_tag on_S_open decodeTimestamp_def field_def be_uint_def)
  finally show ?thesis by (simp add: messageMap_zero)
qed

text \<open>
  C2 (amended): when the loop reads a tag byte that is not a key of the length table, it
  reads no payload and goes on with the next byte as the next tag: the loop, \<^verbatim>\<open>parseTrades\<close>
  and \<^verbatim>\<open>main\<close> give what they give on the stream without that byte. Only a byte from
  \<^verbatim>\<open>0x80\<close> up, which does not decode, aborts the run with \<^verbatim>\<open>UnicodeDecodeError\<close>.
\<close>

theorem unrecognized_tag_skipped:
  assumes "messageMap m_type = None"
    and "list_all framed pre" and "run init_state pre = Inr (Continue st)"
  shows "parse_loop st (m_type # file) =
      (if m_type < 0x80 then parse_loop st file else Inl UnicodeDecodeError)
    \<and> parse_loop init_state (wire pre @ m_type # file) =
      (if m_type < 0x80 then parse_loop init_state (wire pre @ file) else Inl UnicodeDecodeError)
    \<and> parseTrades (wire pre @ m_type # file) =
      (if m_type < 0x80 then parseTrades (wire pre @ file) else Inl UnicodeDecodeError)
    \<and> main (wire pre @ m_type # file) =
      (if m_type < 0x80 then main (wire pre @ file) else Inl UnicodeDecodeError)"
proof -
  have one: "parse_loop s (m_type # file) =
      (if m_type < 0x80 then parse_loop s file else Inl UnicodeDecodeError)" for s
    using assms(1) by (simp add: parse_loop_skip parse_loop_high not_less)
  have "parse_loop init_state (wire pre @ m_type # file) = parse_loop st (m_type # file)"
    by (rule parse_loop_run [OF assms(2,3)])
  moreover have "parse_loop init_state (wire pre @ file) = parse_loop st file"
    by (rule parse_loop_run [OF assms(2,3)])
  ultimately have loop: "parse_loop init_state (wire pre @ m_type # file) =
      (if m_type < 0x80 then parse_loop init_state (wire pre @ file) else Inl UnicodeDecodeError)"
    using one [of st] by simp
  then have pt: "parseTrades (wire pre @ m_type # file) =
      (if m_type < 0x80 then parseTrades (wire pre @ file) else Inl UnicodeDecodeError)"
    by (simp add: parseTrades_def)
  then have "main (wire pre @ m_type # file) =
      (if m_type < 0x80 then main (wire pre @ file) else Inl UnicodeDecodeError)"
    by (simp add: main_def)
  with one [of st] loop pt show ?thesis by simp
qed

theorem unrecognized_tag_skipped_witness:
  "messageMap 0x24 = None
   \<and> parse_loop init_state (wire [(ascii CHR ''S'', ex_open)] @ 0x24 # ascii CHR ''S'' # ex_close) =
       parse_loop init_state (wire [(ascii CHR ''S'', ex_open)] @ ascii CHR ''S'' # ex_close)
   \<and> messageMap 0xFF = None
   \<and> main (wire [(ascii CHR ''S'', ex_open)] @ 0xFF # ascii CHR ''S'' # ex_close) =
       Inl UnicodeDecodeError"
proof -
  have n: "messageMap 0x24 = None" "messageMap 0xFF = None"
    by (simp_all add: messageMap_def m_map_items_def ascii_def)
  from unrecognized_tag_skipped [OF n(1) framed_open run_open, of "ascii CHR ''S'' # ex_close"]
    unrecognized_tag_skipped [OF n(2) framed_open run_open, of "ascii CHR ''S'' # ex_close"]
    n show ?thesis
    by simp
qed

section \<open>Market close\<close>

text \<open>
  C9: once a system message with event code \<^verbatim>\<open>M\<close> is decoded, the loop returns at once
  with the close timestamp recorded and nothing else changed; the bytes after the message
  are left unread, and the result of \<^verbatim>\<open>parseTrades\<close> and of \<^verbatim>\<open>main\<close> does not depend on
  them.
\<close>

theorem market_close_stops_decoding:
  assumes "list_all framed pre" and "run init_state pre = Inr (Continue st)"
    and "length msg = 11" and "msg ! 10 = ascii CHR ''M''"
  shows "parse_loop init_state (wire pre @ ascii CHR ''S'' # msg @ rest) =
       Inr (st\<lparr>endTime := decodeTimestamp (field 4 6 msg)\<rparr>, rest)
    \<and> parseTrades (wire pre @ ascii CHR ''S'' # msg @ rest) =
       parseTrades (wire pre @ ascii CHR ''S'' # msg)
    \<and> main (wire pre @ ascii CHR ''S'' # msg @ rest) = main (wire pre @ ascii CHR ''S'' # msg)"
proof -
  have loop: "parse_loop init_state (wire pre @ ascii CHR ''S'' # msg @ r) =
      Inr (st\<lparr>endTime := decodeTimestamp (field 4 6 msg)\<rparr>, r)" for r
  proof -
    have "parse_loop init_state (wire pre @ ascii CHR ''S'' # msg @ r) =
        parse_loop st (ascii CHR ''S'' # msg @ r)"
      by (rule parse_loop_run [OF assms(1,2)])
    also have "\<dots> = Inr (st\<lparr>endTime := decodeTimestamp (field 4 6 msg)\<rparr>, r)"
      using assms(3,4)
      by (subst parse_loop_message) (simp_all add: messageMap_tags process_tag on_S_close)
    finally show ?thesis .
  qed
  have pt: "parseTrades (wire pre @ ascii CHR ''S'' # msg @ rest) =
      parseTrades (wire pre @ ascii CHR ''S'' # msg)"
    using loop [of rest] loop [of "[]"] by (simp add: parseTrades_def)
  then have "main (wire pre @ ascii CHR ''S'' # msg @ rest) = main (wire pre @ ascii CHR ''S'' # msg)"
    by (simp add: main_def)
  with loop [of rest] pt show ?thesis by simp
qed

theorem market_close_stops_decoding_witness:
  "parse_loop init_state
     (wire [(ascii CHR ''S'', ex_open)] @ ascii CHR ''S'' # ex_close @ ascii CHR ''P'' # ex_trade) =
   Inr (init_state\<lparr>openTime := 1, started := True, endTime := 9\<rparr>, ascii CHR ''P'' # ex_trade)
   \<and> main (wire [(ascii CHR ''S'', ex_open)] @ ascii CHR ''S'' # ex_close @ ascii CHR ''P'' # ex_trade) =
     main (wire [(ascii CHR ''S'', ex_open)] @ ascii CHR ''S'' # ex_close)"
  using market_close_stops_decoding [OF framed_open run_open example_lengths(2) example_codes(2),
      of "ascii CHR ''P'' # ex_trade"]
  by (simp add: example_times)

section \<open>The order reference table\<close>

text \<open>
  C3: a plain Order Executed message that is read while the market is open, and whose
  reference number no earlier message of the stream registered (no \<^verbatim>\<open>A\<close>, \<^verbatim>\<open>F\<close> or
  \<^verbatim>\<open>U\<close> message wrote it), raises \<^verbatim>\<open>KeyError\<close>: the loop, \<^verbatim>\<open>parseTrades\<close> and
  \<^verbatim>\<open>main\<close> all end with the error, so there is no table of totals at all.
\<close>

theorem execute_unregistered_reference_raises:
  assumes "list_all framed pre" and "run init_state pre = Inr (Continue st)"
    and "started st" and "length msg = 30"
    and "\<forall>m \<in> set pre. registers m \<noteq> Some (be_uint (field 10 8 msg))"
  shows "process (ascii CHR ''E'') msg st = Inl KeyError
    \<and> parse_loop init_state (wire pre @ ascii CHR ''E'' # msg @ rest) = Inl KeyError
    \<and> parseTrades (wire pre @ ascii CHR ''E'' # msg @ rest) = Inl KeyError
    \<and> main (wire pre @ ascii CHR ''E'' # msg @ rest) = Inl KeyError"
proof -
  have "added_orders st (be_uint (field 10 8 msg)) = added_orders init_state (be_uint (field 10 8 msg))"
    by (rule run_added_orders [OF assms(2,5)])
  then have none: "added_orders st (be_uint (field 10 8 msg)) = None"
    by (simp add: init_state_def)
  have p: "process (ascii CHR ''E'') msg st = Inl KeyError"
    using assms(3,4) none by (simp add: process_tag on_E_def)
  have "parse_loop init_state (wire pre @ ascii CHR ''E'' # msg @ rest) =
      parse_loop st (ascii CHR ''E'' # msg @ rest)"
    by (rule parse_loop_run [OF assms(1,2)])
  also have "\<dots> = Inl KeyError"
    using assms(4) p by (subst parse_loop_message) (simp_all add: messageMap_tags)
  finally have l: "parse_loop init_state (wire pre @ ascii CHR ''E'' # msg @ rest) = Inl KeyError" .
  from p l parseTrades_error [OF l] main_error [OF parseTrades_error [OF l]] show ?thesis
    by simp
qed

theorem execute_unregistered_reference_raises_witness:
  "main (wire [(ascii CHR ''S'', ex_open)] @ ascii CHR ''E'' # ex_execute @ ascii CHR ''S'' # ex_close)
     = Inl KeyError"
proof -
  have r: "\<forall>m \<in> set [(ascii CHR ''S'', ex_open)]. registers m \<noteq> Some (be_uint (field 10 8 ex_execute))"
    by (simp add: registers_def ascii_def)
  have s: "started (init_state\<lparr>openTime := 1, started := True\<rparr>)"
    by simp
  show ?thesis
    using execute_unregistered_reference_raises [OF framed_open run_open s example_lengths(6) r,
        of "ascii CHR ''S'' # ex_close"]
    by simp
qed

text \<open>
  C6: an Order Replace message is processed whatever the state is, market open or not:
  it maps the new reference number, the second 8-byte integer of the payload, to the price
  of the message, and changes nothing else, so it adds no trade; the loop then goes on
  with the bytes after it.
\<close>

theorem replace_always_registers:
  assumes "length msg = 34"
  shows "process (ascii CHR ''U'') msg st =
       Inr (Continue (st\<lparr>added_orders := (added_orders st)
              (be_uint (field 18 8 msg) \<mapsto> price_of (be_uint (field 30 4 msg)))\<rparr>))
    \<and> parse_loop st (ascii CHR ''U'' # msg @ rest) =
       parse_loop (st\<lparr>added_orders := (added_orders st)
              (be_uint (field 18 8 msg) \<mapsto> price_of (be_uint (field 30 4 msg)))\<rparr>) rest"
proof -
  have p: "process (ascii CHR ''U'') msg st =
       Inr (Continue (st\<lparr>added_orders := (added_orders st)
              (be_uint (field 18 8 msg) \<mapsto> price_of (be_uint (field 30 4 msg)))\<rparr>))"
    using assms by (simp add: process_tag on_U_def)
  then show ?thesis
    using assms by (subst parse_loop_message) (simp_all add: messageMap_tags)
qed

theorem replace_always_registers_witness:
  "process (ascii CHR ''U'') ex_replace init_state =
     Inr (Continue (init_state\<lparr>added_orders := [6 \<mapsto> price_of 1005000]\<rparr>))
   \<and> \<not> started init_state"
proof -
  have f: "be_uint (field 18 8 ex_replace) = 6" "be_uint (field 30 4 ex_replace) = 1005000"
    by (simp_all add: ex_replace_def field_def be_uint_def)
  show ?thesis
    using replace_always_registers [OF example_lengths(5), of init_state "[]"]
    by (simp add: f) (simp add: init_state_def)
qed

lemma on_E_registered:
  assumes "started st" and "length e = 30" and "added_orders st (be_uint (field 10 8 e)) = Some p"
  shows "process (ascii CHR ''E'') e st =
    Inr (Continue (st\<lparr>filled_orders := filled_orders st @
      [(be_uint (field 0 2 e), p, be_uint (field 18 4 e), decodeTimestamp (field 4 6 e))]\<rparr>))"
  using assms by (simp add: process_tag on_E_def)

lemma example_fields:
  "be_uint (field 10 8 ex_add) = 5" "be_uint (field 31 4 ex_add) = 1002500"
  "be_uint (field 10 8 ex_replace) = 5" "be_uint (field 18 8 ex_replace) = 6"
  "be_uint (field 30 4 ex_replace) = 1005000"
  "be_uint (field 0 2 ex_execute) = 7" "be_uint (field 10 8 ex_execute) = 5"
  "be_uint (field 18 4 ex_execute) = 10"
  "be_uint (field 0 2 ex_execute_price) = 7" "be_uint (field 18 4 ex_execute_price) = 10"
  "be_uint (field 31 4 ex_execute_price) = 1002500"
  by (simp_all add: ex_add_def ex_replace_def ex_execute_def ex_execute_price_def
      field_def be_uint_def)

text \<open>
  C7: an Add Order message (\<^verbatim>\<open>A\<close> or \<^verbatim>\<open>F\<close>) registers its reference number with its
  price. When the messages after it do not register that reference again and leave the
  market open, a plain Order Executed message for the reference appends one trade to the
  collected trades: the stock ID, quantity and timestamp of the execute message, at the
  price of the add message.
\<close>

theorem add_then_execute_uses_add_price:
  assumes "t = ascii CHR ''A'' \<or> t = ascii CHR ''F''"
    and "framed (t, a)" and "list_all framed mid"
    and "run st ((t, a) # mid) = Inr (Continue st2)"
    and "\<forall>m \<in> set mid. registers m \<noteq> Some (be_uint (field 10 8 a))"
    and "started st2" and "length e = 30"
    and "be_uint (field 10 8 e) = be_uint (field 10 8 a)"
  shows "process (ascii CHR ''E'') e st2 =
      Inr (Continue (st2\<lparr>filled_orders := filled_orders st2 @
        [(be_uint (field 0 2 e), price_of (be_uint (field 31 4 a)), be_uint (field 18 4 e),
          decodeTimestamp (field 4 6 e))]\<rparr>))
    \<and> parse_loop st (wire ((t, a) # mid) @ ascii CHR ''E'' # e @ rest) =
      parse_loop (st2\<lparr>filled_orders := filled_orders st2 @
        [(be_uint (field 0 2 e), price_of (be_uint (field 31 4 a)), be_uint (field 18 4 e),
          decodeTimestamp (field 4 6 e))]\<rparr>) rest"
proof -
  let ?r = "be_uint (field 10 8 a)"
  let ?p = "price_of (be_uint (field 31 4 a))"
  let ?st1 = "st\<lparr>added_orders := (added_orders st)(?r \<mapsto> ?p)\<rparr>"
  have step: "process t a st = Inr (Continue ?st1)"
    using assms(1,2) by (auto simp: framed_def messageMap_tags process_tag on_A_def on_F_def)
  have "messageMap t \<noteq> None"
    using assms(1) by (auto simp: messageMap_tags)
  with assms(4) step have mid: "run ?st1 mid = Inr (Continue st2)"
    by auto
  have "added_orders st2 ?r = added_orders ?st1 ?r"
    by (rule run_added_orders [OF mid assms(5)])
  then have reg: "added_orders st2 (be_uint (field 10 8 e)) = Some ?p"
    by (simp add: assms(8))
  have ex: "process (ascii CHR ''E'') e st2 =
      Inr (Continue (st2\<lparr>filled_orders := filled_orders st2 @
        [(be_uint (field 0 2 e), ?p, be_uint (field 18 4 e), decodeTimestamp (field 4 6 e))]\<rparr>))"
    by (rule on_E_registered [OF assms(6,7) reg])
  have fr: "list_all framed ((t, a) # mid)"
    using assms(2,3) by simp
  have "parse_loop st (wire ((t, a) # mid) @ ascii CHR ''E'' # e @ rest) =
      parse_loop st2 (ascii CHR ''E'' # e @ rest)"
    by (rule parse_loop_run [OF fr assms(4)])
  also have "\<dots> = parse_loop (st2\<lparr>filled_orders := filled_orders st2 @
        [(be_uint (field 0 2 e), ?p, be_uint (field 18 4 e), decodeTimestamp (field 4 6 e))]\<rparr>) rest"
    using assms(7) ex by (subst parse_loop_message) (simp_all add: messageMap_tags)
  finally show ?thesis
    using ex by simp
qed

theorem add_then_execute_uses_add_price_witness:
  "process (ascii CHR ''E'') ex_execute
     (init_state\<lparr>started := True, added_orders := [5 \<mapsto> price_of 1002500]\<rparr>) =
   Inr (Continue (init_state\<lparr>started := True, added_orders := [5 \<mapsto> price_of 1002500],
     filled_orders := [(7, price_of 1002500, 10, 4)]\<rparr>))"
proof -
  let ?st = "init_state\<lparr>started := True\<rparr>"
  let ?st2 = "init_state\<lparr>started := True, added_orders := [5 \<mapsto> price_of 1002500]\<rparr>"
  have t: "ascii CHR ''A'' = ascii CHR ''A'' \<or> ascii CHR ''A'' = ascii CHR ''F''"
    by simp
  have fa: "framed (ascii CHR ''A'', ex_add)"
    by (simp add: framed_def messageMap_tags ascii_tags example_lengths)
  have fm: "list_all framed []"
    by simp
  have r: "run ?st ((ascii CHR ''A'', ex_add) # []) = Inr (Continue ?st2)"
    by (simp add: messageMap_tags process_tag on_A_def example_lengths example_fields)
      (simp add: init_state_def)
  have nr: "\<forall>m \<in> set []. registers m \<noteq> Some (be_uint (field 10 8 ex_add))"
    by simp
  have s: "started ?st2"
    by simp
  have eq: "be_uint (field 10 8 ex_execute) = be_uint (field 10 8 ex_add)"
    by (simp add: example_fields)
  show ?thesis
    using add_then_execute_uses_add_price [OF t fa fm r nr s example_lengths(6) eq, of "[]"]
    by (simp add: example_fields example_times) (simp add: init_state_def)
qed

text \<open>
  C10: the order reference table only grows. A Replace message whose new reference differs
  from its original reference leaves the entry of the original reference as it was, right
  after the message and after any later messages that do not register that reference
  again; a plain Order Executed message for the original reference, read while the market
  is open, then appends a trade at the price of that entry and raises no error.
\<close>

theorem stale_reference_executes_after_replace:
  assumes "length u = 34"
    and "be_uint (field 10 8 u) \<noteq> be_uint (field 18 8 u)"
    and "added_orders st (be_uint (field 10 8 u)) = Some p"
    and "list_all framed mid"
    and "run st ((ascii CHR ''U'', u) # mid) = Inr (Continue st2)"
    and "\<forall>m \<in> set mid. registers m \<noteq> Some (be_uint (field 10 8 u))"
    and "started st2" and "length e = 30"
    and "be_uint (field 10 8 e) = be_uint (field 10 8 u)"
  shows "dom (added_orders st) \<subseteq> dom (added_orders st2)
    \<and> added_orders st2 (be_uint (field 10 8 u)) = Some p
    \<and> added_orders (ctl_state (projr (process (ascii CHR ''U'') u st))) (be_uint (field 10 8 u)) = Some p
    \<and> process (ascii CHR ''E'') e st2 =
      Inr (Continue (st2\<lparr>filled_orders := filled_orders st2 @
        [(be_uint (field 0 2 e), p, be_uint (field 18 4 e), decodeTimestamp (field 4 6 e))]\<rparr>))
    \<and> parse_loop st (wire ((ascii CHR ''U'', u) # mid) @ ascii CHR ''E'' # e @ rest) =
      parse_loop (st2\<lparr>filled_orders := filled_orders st2 @
        [(be_uint (field 0 2 e), p, be_uint (field 18 4 e), decodeTimestamp (field 4 6 e))]\<rparr>) rest"
proof -
  let ?r1 = "be_uint (field 10 8 u)"
  let ?st1 = "st\<lparr>added_orders := (added_orders st)
      (be_uint (field 18 8 u) \<mapsto> price_of (be_uint (field 30 4 u)))\<rparr>"
  have step: "process (ascii CHR ''U'') u st = Inr (Continue ?st1)"
    using assms(1) by (simp add: process_tag on_U_def)
  have kept: "added_orders ?st1 ?r1 = Some p"
    using assms(2,3) by simp
  from assms(5) step have mid: "run ?st1 mid = Inr (Continue st2)"
    by (simp add: messageMap_tags)
  have "added_orders st2 ?r1 = added_orders ?st1 ?r1"
    by (rule run_added_orders [OF mid assms(6)])
  with kept have reg: "added_orders st2 ?r1 = Some p"
    by simp
  then have reg': "added_orders st2 (be_uint (field 10 8 e)) = Some p"
    by (simp add: assms(9))
  have ex: "process (ascii CHR ''E'') e st2 =
      Inr (Continue (st2\<lparr>filled_orders := filled_orders st2 @
        [(be_uint (field 0 2 e), p, be_uint (field 18 4 e), decodeTimestamp (field 4 6 e))]\<rparr>))"
    by (rule on_E_registered [OF assms(7,8) reg'])
  have fu: "framed (ascii CHR ''U'', u)"
    using assms(1) by (simp add: framed_def messageMap_tags ascii_tags)
  with assms(4) have fr: "list_all framed ((ascii CHR ''U'', u) # mid)"
    by simp
  have "parse_loop st (wire ((ascii CHR ''U'', u) # mid) @ ascii CHR ''E'' # e @ rest) =
      parse_loop st2 (ascii CHR ''E'' # e @ rest)"
    by (rule parse_loop_run [OF fr assms(5)])
  also have "\<dots> = parse_loop (st2\<lparr>filled_orders := filled_orders st2 @
        [(be_uint (field 0 2 e), p, be_uint (field 18 4 e), decodeTimestamp (field 4 6 e))]\<rparr>) rest"
    using assms(8) ex by (subst parse_loop_message) (simp_all add: messageMap_tags)
  finally have loop: "parse_loop st (wire ((ascii CHR ''U'', u) # mid) @ ascii CHR ''E'' # e @ rest) =
      parse_loop (st2\<lparr>filled_orders := filled_orders st2 @
        [(be_uint (field 0 2 e), p, be_uint (field 18 4 e), decodeTimestamp (field 4 6 e))]\<rparr>) rest" .
  have mono: "dom (added_orders st) \<subseteq> dom (added_orders st2)"
    by (rule run_dom_mono [OF assms(5)])
  from mono reg kept step ex loop show ?thesis
    by simp
qed

theorem stale_reference_executes_after_replace_witness:
  "process (ascii CHR ''E'') ex_execute
     (init_state\<lparr>started := True,
        added_orders := [5 \<mapsto> price_of 1002500, 6 \<mapsto> price_of 1005000]\<rparr>) =
   Inr (Continue (init_state\<lparr>started := True,
        added_orders := [5 \<mapsto> price_of 1002500, 6 \<mapsto> price_of 1005000],
        filled_orders := [(7, price_of 1002500, 10, 4)]\<rparr>))"
proof -
  let ?st = "init_state\<lparr>started := True, added_orders := [5 \<mapsto> price_of 1002500]\<rparr>"
  let ?st2 = "init_state\<lparr>started := True,
        added_orders := [5 \<mapsto> price_of 1002500, 6 \<mapsto> price_of 1005000]\<rparr>"
  have ne: "be_uint (field 10 8 ex_replace) \<noteq> be_uint (field 18 8 ex_replace)"
    by (simp add: example_fields)
  have old: "added_orders ?st (be_uint (field 10 8 ex_replace)) = Some (price_of 1002500)"
    by (simp add: example_fields)
  have fm: "list_all framed []"
    by simp
  have r: "run ?st ((ascii CHR ''U'', ex_replace) # []) = Inr (Continue ?st2)"
    by (simp add: messageMap_tags process_tag on_U_def example_lengths example_fields)
  have nr: "\<forall>m \<in> set []. registers m \<noteq> Some (be_uint (field 10 8 ex_replace))"
    by simp
  have s: "started ?st2"
    by simp
  have eq: "be_uint (field 10 8 ex_execute) = be_uint (field 10 8 ex_replace)"
    by (simp add: example_fields)
  show ?thesis
    using stale_reference_executes_after_replace
      [OF example_lengths(5) ne old fm r nr s example_lengths(6) eq, of "[]"]
    by (simp add: example_fields example_times) (simp add: init_state_def)
qed

section \<open>Running VWAP and the output table\<close>

lemma vwap_hours_length: "vwap_hours b hours v q = Inr hs \<Longrightarrow> length hs = length hours"
  by (induction hours arbitrary: v q hs) (auto split: option.splits prod.splits sum.splits)

lemma vwap_hours_total:
  "\<forall>n \<in> set hours. hour_label n \<in> dom b \<Longrightarrow> \<exists>hs. vwap_hours b hours v q = Inr hs"
proof (induction hours arbitrary: v q)
  case Nil
  then show ?case by simp
next
  case (Cons n hours)
  then obtain tup where tup: "b (hour_label n) = Some tup" by auto
  obtain v' q' w where vw: "VWAP tup v q = (v', q', w)" by (cases "VWAP tup v q")
  from Cons obtain hs where "vwap_hours b hours v' q' = Inr hs" by fastforce
  with tup vw show ?case by simp
qed

lemma vwap_hours_nth:
  assumes "vwap_hours b hours v q = Inr hs" and "k < length hs"
  shows "\<exists>tup. b (hour_label (hours ! k)) = Some tup \<and>
    hs ! k = VWAP tup (if k = 0 then v else fst (hs ! (k - 1)))
                      (if k = 0 then q else fst (snd (hs ! (k - 1))))"
  using assms
proof (induction hours arbitrary: v q hs k)
  case Nil
  then show ?case by simp
next
  case (Cons n hours)
  from Cons.prems(1) obtain tup v' q' w rest where
    tup: "b (hour_label n) = Some tup" and vw: "VWAP tup v q = (v', q', w)"
    and rest: "vwap_hours b hours v' q' = Inr rest" and hs: "hs = (v', q', w) # rest"
    by (auto split: option.splits prod.splits sum.splits)
  show ?case
  proof (cases k)
    case 0
    with tup vw hs show ?thesis by simp
  next
    case (Suc j)
    with Cons.prems(2) hs have j: "j < length rest" by simp
    from Cons.IH [OF rest j] obtain tup' where
      t': "b (hour_label (hours ! j)) = Some tup'" and
      n': "rest ! j = VWAP tup' (if j = 0 then v' else fst (rest ! (j - 1)))
                      (if j = 0 then q' else fst (snd (rest ! (j - 1))))"
      by blast
    show ?thesis
    proof (cases j)
      case 0
      with t' n' Suc hs show ?thesis by simp
    next
      case (Suc i)
      with t' n' \<open>k = Suc j\<close> hs show ?thesis by simp
    qed
  qed
qed

lemma VWAP_parts:
  "VWAP (bv, bq) v q = (py_add bv v, bq + q,
     if bq + q \<noteq> 0 then py_truediv (py_add bv v) (bq + q) else PyInt 0)"
  by (simp add: VWAP_def Let_def)

lemma vwap_hours_zero:
  "\<forall>n \<in> set hours. b (hour_label n) = Some (PyInt 0, 0) \<Longrightarrow>
   vwap_hours b hours (PyInt 0) 0 = Inr (replicate (length hours) (PyInt 0, 0, PyInt 0))"
  by (induction hours) (simp_all add: VWAP_parts)

lemma update_fresh: "k \<notin> fst ` set al \<Longrightarrow> AList.update k v al = al @ [(k, v)]"
  by (induction al) auto

lemma hourlyMap_loop_distinct:
  "distinct (map fst acc @ ids) \<Longrightarrow>
   hourlyMap_loop acc ids = acc @ map (\<lambda>i. (i, init_hours Map.empty market_hours)) ids"
proof (induction ids arbitrary: acc)
  case Nil
  then show ?case by simp
next
  case (Cons i ids)
  from Cons.prems have fresh: "i \<notin> fst ` set acc"
    by auto
  from Cons.prems have "distinct (map fst (acc @ [(i, init_hours Map.empty market_hours)]) @ ids)"
    by auto
  from Cons.IH [OF this] show ?case
    by (simp add: update_fresh [OF fresh])
qed

lemma hourlyMap_distinct:
  "distinct ids \<Longrightarrow> hourlyMap ids o_t e_t = map (\<lambda>i. (i, init_hours Map.empty market_hours)) ids"
  using hourlyMap_loop_distinct [of "[]" ids] by (simp add: hourlyMap_def)

lemma process_stock_map_distinct:
  assumes "process t msg st = Inr c" and "distinct (map fst (stock_map st))"
  shows "distinct (map fst (stock_map (ctl_state c)))"
  using assms
  by (auto simp: process_def on_S_def on_R_def on_A_def on_F_def on_E_def
        on_C_def on_U_def on_P_def distinct_update split: if_splits sum.splits option.splits)

lemma parse_loop_stock_map_distinct:
  "parse_loop st bs = Inr (st', unread) \<Longrightarrow> distinct (map fst (stock_map st)) \<Longrightarrow>
   distinct (map fst (stock_map st'))"
proof (induction st bs rule: parse_loop.induct)
  case (1 st)
  then show ?case by simp
next
  case (2 st m_type bs)
  show ?case
  proof (cases "messageMap m_type")
    case None
    with 2 show ?thesis
      by (auto simp: parse_loop.simps(2) split: if_splits)
  next
    case (Some steps)
    from "2.prems"(1) have hi: "\<not> 0x80 \<le> m_type"
      by (auto simp: parse_loop.simps(2) split: if_splits)
    from "2.prems"(1) Some hi obtain c where
      p: "process m_type (take steps bs) st = Inr c"
      by (auto simp: parse_loop.simps(2) split: sum.splits)
    note d = process_stock_map_distinct [OF p "2.prems"(2)]
    show ?thesis
    proof (cases c)
      case (Continue st1)
      with "2.prems"(1) Some hi p have "parse_loop st1 (drop steps bs) = Inr (st', unread)"
        by (simp add: parse_loop.simps(2))
      with "2.IH"(2) [OF hi Some p Continue] d Continue show ?thesis
        by simp
    next
      case (Break st1)
      with "2.prems"(1) Some hi p have "st' = st1"
        by (simp add: parse_loop.simps(2))
      with d Break show ?thesis by simp
    qed
  qed
qed

lemma parseOrders_keeps:
  assumes "parseOrders trades orders e_t = Inr trades'"
  shows "map fst trades' = map fst trades \<and>
    (\<forall>k b. map_of trades k = Some b \<longrightarrow>
       (\<exists>b'. map_of trades' k = Some b' \<and> dom b' = dom b \<and> (k \<notin> fst ` set orders \<longrightarrow> b' = b)))"
  using assms
proof (induction orders arbitrary: trades)
  case Nil
  then show ?case by simp
next
  case (Cons ord orders)
  obtain stock price quantity time where ord: "ord = (stock, price, quantity, time)"
    by (cases ord)
  let ?hour = "calculateHour time e_t"
  from Cons.prems obtain st cv cq where
    st: "map_of trades stock = Some st" and bucket: "st ?hour = Some (cv, cq)"
    and rest: "parseOrders (AList.update stock
        (st(?hour \<mapsto> (py_add cv (PyFloat (float_mul_int price quantity)), cq + quantity))) trades)
        orders e_t = Inr trades'"
    by (auto simp: ord Let_def split: option.splits prod.splits)
  let ?st' = "st(?hour \<mapsto> (py_add cv (PyFloat (float_mul_int price quantity)), cq + quantity))"
  let ?mid = "AList.update stock ?st' trades"
  from st have mem: "stock \<in> set (map fst trades)"
    by (metis map_of_eq_None_iff option.distinct(1) set_map)
  then have keys: "map fst ?mid = map fst trades"
    by (simp add: update_keys)
  have look: "map_of ?mid = (map_of trades)(stock \<mapsto> ?st')"
    by (rule update_conv')
  have dm: "dom ?st' = dom st"
    using bucket by auto
  from Cons.IH [OF rest] have
    k1: "map fst trades' = map fst ?mid" and
    k2: "\<And>k b. map_of ?mid k = Some b \<Longrightarrow>
       \<exists>b'. map_of trades' k = Some b' \<and> dom b' = dom b \<and> (k \<notin> fst ` set orders \<longrightarrow> b' = b)"
    by blast+
  have fin: "\<exists>b'. map_of trades' k = Some b' \<and> dom b' = dom b \<and> (k \<notin> fst ` set (ord # orders) \<longrightarrow> b' = b)"
    if kb: "map_of trades k = Some b" for k b
  proof (cases "k = stock")
    case True
    with kb st have "b = st" by simp
    from k2 [of stock ?st'] look obtain b' where
      "map_of trades' stock = Some b'" "dom b' = dom ?st'"
      by auto
    with True \<open>b = st\<close> dm show ?thesis
      by (auto simp: ord)
  next
    case False
    with kb look have "map_of ?mid k = Some b" by simp
    from k2 [OF this] False show ?thesis
      by (auto simp: ord)
  qed
  from k1 keys have "map fst trades' = map fst trades"
    by simp
  with fin show ?case
    by (intro conjI allI impI)
qed

lemma main_loop_rows:
  assumes "\<forall>i \<in> set ids. i \<in> dom (map_of smap) \<and>
      (\<exists>b. map_of trades i = Some b \<and> (\<forall>n \<in> set market_hours. hour_label n \<in> dom b))"
  shows "\<exists>rows. main_loop smap trades ids = Inr rows \<and> length rows = length ids \<and>
    (\<forall>k < length ids. \<exists>ticker b hs. map_of smap (ids ! k) = Some ticker \<and>
        map_of trades (ids ! k) = Some b \<and>
        vwap_hours b market_hours (PyInt 0) 0 = Inr hs \<and>
        rows ! k = (ticker, map (\<lambda>(v, q, vwap). vwap) hs))"
  using assms
proof (induction ids)
  case Nil
  then show ?case by simp
next
  case (Cons i ids)
  from Cons.prems obtain ticker b where
    t: "map_of smap i = Some ticker" and b: "map_of trades i = Some b"
    and lab: "\<forall>n \<in> set market_hours. hour_label n \<in> dom b"
    by auto
  from vwap_hours_total [OF lab] obtain hs where
    hs: "vwap_hours b market_hours (PyInt 0) 0 = Inr hs" by blast
  from Cons.IH Cons.prems obtain rows where
    r: "main_loop smap trades ids = Inr rows" and len: "length rows = length ids" and
    each: "\<forall>k < length ids. \<exists>ticker b hs. map_of smap (ids ! k) = Some ticker \<and>
        map_of trades (ids ! k) = Some b \<and>
        vwap_hours b market_hours (PyInt 0) 0 = Inr hs \<and>
        rows ! k = (ticker, map (\<lambda>(v, q, vwap). vwap) hs)"
    by auto
  let ?rows = "(ticker, map (\<lambda>(v, q, vwap). vwap) hs) # rows"
  have m: "main_loop smap trades (i # ids) = Inr ?rows"
    using t b hs r by simp
  have "\<exists>ticker b hs. map_of smap ((i # ids) ! k) = Some ticker \<and>
        map_of trades ((i # ids) ! k) = Some b \<and>
        vwap_hours b market_hours (PyInt 0) 0 = Inr hs \<and>
        ?rows ! k = (ticker, map (\<lambda>(v, q, vwap). vwap) hs)" if "k < length (i # ids)" for k
  proof (cases k)
    case 0
    with t b hs show ?thesis by simp
  next
    case (Suc j)
    with that each show ?thesis by simp
  qed
  with m len show ?case by simp
qed

lemma vwap_hours_formula:
  assumes "vwap_hours b hours v q = Inr hs"
  shows "\<forall>(v', q', vwap) \<in> set hs. vwap = (if q' \<noteq> 0 then py_truediv v' q' else PyInt 0)"
  using assms
proof (induction hours arbitrary: v q hs)
  case Nil
  then show ?case by simp
next
  case (Cons n hours)
  from Cons.prems obtain tup v' q' w rest where
    vw: "VWAP tup v q = (v', q', w)"
    and rest: "vwap_hours b hours v' q' = Inr rest" and hs: "hs = (v', q', w) # rest"
    by (auto split: option.splits prod.splits sum.splits)
  obtain bv bq where "tup = (bv, bq)" by (cases tup)
  with vw have "w = (if q' \<noteq> 0 then py_truediv v' q' else PyInt 0)"
    by (auto simp: VWAP_parts)
  with Cons.IH [OF rest] hs show ?case by simp
qed

lemma init_hours_market:
  "\<forall>n \<in> set market_hours. init_hours Map.empty market_hours (hour_label n) = Some (PyInt 0, 0)"
  by (simp add: market_hours_def hour_label_vals)

lemma map_of_const: "k \<in> set ids \<Longrightarrow> map_of (map (\<lambda>i. (i, c)) ids) k = Some c"
  by (induction ids) auto

lemma ex_ticker: "utf8_decode (field 10 8 ex_directory) = Inr [65, 66, 67, 32, 32, 32, 32, 32]"
  by (simp add: ex_directory_def field_def seq_len_def code_point_def)

lemma ex_strip: "strip [65, 66, 67, 32, 32, 32, 32, 32] = [65, 66, 67]"
  by (simp add: strip_def isspace_def)

lemma example_trade_fields:
  "be_uint (field 0 2 ex_directory) = 7" "be_uint (field 0 2 ex_trade) = 7"
  "be_uint (field 31 4 ex_trade) = 1002500" "be_uint (field 19 4 ex_trade) = 100"
  by (simp_all add: ex_directory_def ex_trade_def field_def be_uint_def)

lemma round53_vals:
  "round53 0 = 0" "round53 10 = 10" "round53 100 = 100" "round53 (401 / 4) = 401 / 4"
  "round53 (2005 / 2) = 2005 / 2" "round53 10025 = 10025"
  by code_simp+

lemma float_session:
  "price_of 1002500 = 401 / 4"
  "float_mul_int (401 / 4) 100 = 10025"
  "float_mul_int (401 / 4) 10 = 2005 / 2"
  "to_float 0 = 0" "to_float 100 = 100"
  by (simp_all add: price_of_def int_truediv_def float_mul_int_def to_float_def round53_vals)

lemma init_hours_vals:
  "init_hours Map.empty market_hours ''4:00'' = Some (PyInt 0, 0)"
  "init_hours Map.empty market_hours ''10:00'' = Some (PyInt 0, 0)"
  by (simp_all add: market_hours_def hour_label_vals)

lemma hourlyMap_one: "hourlyMap [i] o_t e_t = [(i, init_hours Map.empty market_hours)]"
  by (simp add: hourlyMap_def)

lemma init_hours_all:
  "init_hours Map.empty market_hours ''10:00'' = Some (PyInt 0, 0)"
  "init_hours Map.empty market_hours ''11:00'' = Some (PyInt 0, 0)"
  "init_hours Map.empty market_hours ''12:00'' = Some (PyInt 0, 0)"
  "init_hours Map.empty market_hours ''1:00'' = Some (PyInt 0, 0)"
  "init_hours Map.empty market_hours ''2:00'' = Some (PyInt 0, 0)"
  "init_hours Map.empty market_hours ''3:00'' = Some (PyInt 0, 0)"
  "init_hours Map.empty market_hours ''4:00'' = Some (PyInt 0, 0)"
  by (simp_all add: market_hours_def hour_label_vals)

lemma vwap_session:
  "vwap_hours ((init_hours Map.empty market_hours)(''4:00'' \<mapsto> (PyFloat 10025, 100)))
     market_hours (PyInt 0) 0 =
   Inr [(PyInt 0, 0, PyInt 0), (PyInt 0, 0, PyInt 0), (PyInt 0, 0, PyInt 0), (PyInt 0, 0, PyInt 0),
        (PyInt 0, 0, PyInt 0), (PyInt 0, 0, PyInt 0), (PyFloat 10025, 100, PyFloat (401 / 4))]"
  by (simp add: market_hours_def hour_label_vals init_hours_all VWAP_parts float_session
      round53_vals)

lemma on_C_printable:
  assumes "started st" and "length msg = 35" and "msg ! 30 = ascii CHR ''Y''"
  shows "process (ascii CHR ''C'') msg st =
    Inr (Continue (st\<lparr>filled_orders := filled_orders st @
      [(be_uint (field 0 2 msg), price_of (be_uint (field 31 4 msg)), be_uint (field 18 4 msg),
        decodeTimestamp (field 4 6 msg))]\<rparr>))"
  using assms by (simp add: process_tag on_C_def) (simp add: ascii_def)

lemma on_C_hidden:
  assumes "started st" and "length msg = 35" and "msg ! 30 \<noteq> ascii CHR ''Y''"
  shows "process (ascii CHR ''C'') msg st =
    (if 0x80 \<le> msg ! 30 then Inl UnicodeDecodeError else Inr (Continue st))"
  using assms by (simp add: process_tag on_C_def)

lemma example_hidden:
  "length ex_execute_hidden = 35" "ex_execute_hidden ! 30 = ascii CHR ''N''"
  "be_uint (field 31 4 ex_execute_hidden) = 1002500" "be_uint (field 18 4 ex_execute_hidden) = 10"
  by (simp_all add: ex_execute_hidden_def ex_execute_price_def field_def be_uint_def)

text \<open>
  C5: the running VWAP is a fold over the seven hours. For every security whose buckets
  hold the seven hour labels, the loop returns seven triples; the cumulative value and
  quantity of the first hour are those of its bucket added to zero, those of each later
  hour are the bucket of that hour added to the cumulative value and quantity of the hour
  before, and whenever the cumulative quantity is positive the VWAP of the hour is the
  cumulative value divided by the cumulative quantity.
\<close>

theorem running_vwap_fold:
  assumes "\<forall>n \<in> set market_hours. hour_label n \<in> dom buckets"
  shows "\<exists>hs. vwap_hours buckets market_hours (PyInt 0) 0 = Inr hs \<and> length hs = 7
    \<and> (\<exists>bv bq. buckets (hour_label (market_hours ! 0)) = Some (bv, bq)
          \<and> fst (hs ! 0) = py_add bv (PyInt 0) \<and> fst (snd (hs ! 0)) = bq + 0)
    \<and> (\<forall>k. Suc k < 7 \<longrightarrow>
          (\<exists>bv bq. buckets (hour_label (market_hours ! Suc k)) = Some (bv, bq)
             \<and> fst (hs ! Suc k) = py_add bv (fst (hs ! k))
             \<and> fst (snd (hs ! Suc k)) = bq + fst (snd (hs ! k))))
    \<and> (\<forall>k < 7. 0 < fst (snd (hs ! k)) \<longrightarrow>
          snd (snd (hs ! k)) = py_truediv (fst (hs ! k)) (fst (snd (hs ! k))))"
proof -
  from vwap_hours_total [OF assms] obtain hs where
    hs: "vwap_hours buckets market_hours (PyInt 0) 0 = Inr hs" by blast
  have len: "length hs = 7"
    using vwap_hours_length [OF hs] by (simp add: market_hours_def)
  have first: "\<exists>bv bq. buckets (hour_label (market_hours ! 0)) = Some (bv, bq)
          \<and> fst (hs ! 0) = py_add bv (PyInt 0) \<and> fst (snd (hs ! 0)) = bq + 0"
  proof -
    from vwap_hours_nth [OF hs, of 0] len obtain tup where
      "buckets (hour_label (market_hours ! 0)) = Some tup" "hs ! 0 = VWAP tup (PyInt 0) 0"
      by auto
    then show ?thesis by (cases tup) (simp add: VWAP_parts)
  qed
  have step: "\<exists>bv bq. buckets (hour_label (market_hours ! Suc k)) = Some (bv, bq)
             \<and> fst (hs ! Suc k) = py_add bv (fst (hs ! k))
             \<and> fst (snd (hs ! Suc k)) = bq + fst (snd (hs ! k))" if "Suc k < 7" for k
  proof -
    from vwap_hours_nth [OF hs, of "Suc k"] len that obtain tup where
      "buckets (hour_label (market_hours ! Suc k)) = Some tup"
      "hs ! Suc k = VWAP tup (fst (hs ! k)) (fst (snd (hs ! k)))"
      by auto
    then show ?thesis by (cases tup) (simp add: VWAP_parts)
  qed
  have avg: "snd (snd (hs ! k)) = py_truediv (fst (hs ! k)) (fst (snd (hs ! k)))"
    if "k < 7" "0 < fst (snd (hs ! k))" for k
  proof -
    from vwap_hours_nth [OF hs, of k] len that(1) obtain tup v q where
      e: "hs ! k = VWAP tup v q"
      by auto
    obtain bv bq where "tup = (bv, bq)" by (cases tup)
    with e have "hs ! k = (py_add bv v, bq + q,
       if bq + q \<noteq> 0 then py_truediv (py_add bv v) (bq + q) else PyInt 0)"
      by (simp add: VWAP_parts)
    with that(2) show ?thesis by simp
  qed
  from hs len first step avg show ?thesis by blast
qed

theorem running_vwap_fold_witness:
  "\<exists>hs. vwap_hours ((init_hours Map.empty market_hours)(''4:00'' \<mapsto> (PyFloat 10025, 100)))
          market_hours (PyInt 0) 0 = Inr hs
     \<and> length hs = 7
     \<and> hs ! 5 = (PyInt 0, 0, PyInt 0)
     \<and> hs ! 6 = (py_add (PyFloat 10025) (PyInt 0), 100 + 0, PyFloat (401 / 4))"
proof -
  let ?b = "(init_hours Map.empty market_hours)(''4:00'' \<mapsto> (PyFloat 10025, 100))"
  have d: "\<forall>n \<in> set market_hours. hour_label n \<in> dom ?b"
    by (simp add: dom_init_hours)
  from running_vwap_fold [OF d] vwap_session show ?thesis
    by (auto simp: float_session round53_vals)
qed

lemma vwap_hours_running:
  assumes hs: "vwap_hours buckets market_hours (PyInt 0) 0 = Inr hs"
  shows "(\<exists>bv bq. buckets (hour_label (market_hours ! 0)) = Some (bv, bq)
          \<and> fst (hs ! 0) = py_add bv (PyInt 0) \<and> fst (snd (hs ! 0)) = bq + 0)
    \<and> (\<forall>k. Suc k < 7 \<longrightarrow>
          (\<exists>bv bq. buckets (hour_label (market_hours ! Suc k)) = Some (bv, bq)
             \<and> fst (hs ! Suc k) = py_add bv (fst (hs ! k))
             \<and> fst (snd (hs ! Suc k)) = bq + fst (snd (hs ! k))))"
proof -
  have len: "length hs = 7"
    using vwap_hours_length [OF hs] by (simp add: market_hours_def)
  have first: "\<exists>bv bq. buckets (hour_label (market_hours ! 0)) = Some (bv, bq)
          \<and> fst (hs ! 0) = py_add bv (PyInt 0) \<and> fst (snd (hs ! 0)) = bq + 0"
  proof -
    from vwap_hours_nth [OF hs, of 0] len obtain tup where
      "buckets (hour_label (market_hours ! 0)) = Some tup" "hs ! 0 = VWAP tup (PyInt 0) 0"
      by auto
    then show ?thesis by (cases tup) (simp add: VWAP_parts)
  qed
  have step: "\<exists>bv bq. buckets (hour_label (market_hours ! Suc k)) = Some (bv, bq)
             \<and> fst (hs ! Suc k) = py_add bv (fst (hs ! k))
             \<and> fst (snd (hs ! Suc k)) = bq + fst (snd (hs ! k))" if "Suc k < 7" for k
  proof -
    from vwap_hours_nth [OF hs, of "Suc k"] len that obtain tup where
      "buckets (hour_label (market_hours ! Suc k)) = Some tup"
      "hs ! Suc k = VWAP tup (fst (hs ! k)) (fst (snd (hs ! k)))"
      by auto
    then show ?thesis by (cases tup) (simp add: VWAP_parts)
  qed
  from first step show ?thesis by blast
qed

lemma example_day_lengths:
  "length ex_trade_a = 43" "length ex_trade_b = 43" "length ex_close7 = 11"
  by (simp_all add: ex_trade_a_def ex_trade_b_def ex_close7_def)

lemma example_day_fields:
  "be_uint (field 0 2 ex_trade_a) = 7" "be_uint (field 31 4 ex_trade_a) = 1000000"
  "be_uint (field 19 4 ex_trade_a) = 100" "decodeTimestamp (field 4 6 ex_trade_a) = 5"
  "be_uint (field 0 2 ex_trade_b) = 7" "be_uint (field 31 4 ex_trade_b) = 2000000"
  "be_uint (field 19 4 ex_trade_b) = 100"
  "decodeTimestamp (field 4 6 ex_trade_b) = 3600000000005"
  "decodeTimestamp (field 4 6 ex_close7) = 25200000000000"
  "ex_close7 ! 10 = ascii CHR ''M''"
  by (simp_all add: ex_trade_a_def ex_trade_b_def ex_close7_def field_def be_uint_def
      decodeTimestamp_def)

lemma round53_day:
  "round53 200 = 200" "round53 150 = 150" "round53 10000 = 10000" "round53 20000 = 20000"
  "round53 30000 = 30000" "round53 (22005 / 2) = 22005 / 2"
  by code_simp+

lemma float_day:
  "price_of 1000000 = 100" "price_of 2000000 = 200"
  "float_mul_int 100 100 = 10000" "float_mul_int 200 100 = 20000" "to_float 200 = 200"
  by (simp_all add: price_of_def int_truediv_def float_mul_int_def to_float_def round53_vals
      round53_day)

lemma run_morning:
  "run init_state ex_morning =
   Inr (Continue (init_state\<lparr>stock_map := [(7, [65, 66, 67])], openTime := 1, started := True,
     filled_orders := [(7, 100, 100, 5)]\<rparr>))"
  by (simp add: ex_morning_def messageMap_tags process_tag on_R_def on_S_open on_P_def
      example_lengths example_codes example_times example_trade_fields example_day_lengths
      example_day_fields ex_ticker ex_strip float_day)
    (simp add: init_state_def)

lemma framed_morning: "list_all framed ex_morning"
  by (simp add: ex_morning_def framed_def messageMap_tags example_lengths example_day_lengths)
    (simp add: ascii_def)

lemma run_day:
  "run init_state (ex_morning @ [(ascii CHR ''P'', ex_trade_b)]) =
   Inr (Continue (init_state\<lparr>stock_map := [(7, [65, 66, 67])], openTime := 1, started := True,
     filled_orders := [(7, 100, 100, 5), (7, 200, 100, 3600000000005)]\<rparr>))"
  by (simp add: run_append run_morning messageMap_tags process_tag on_P_def
      example_day_lengths example_day_fields float_day)

lemma framed_day: "list_all framed (ex_morning @ [(ascii CHR ''P'', ex_trade_b)])"
  using framed_morning
  by (simp add: framed_def messageMap_tags example_day_lengths) (simp add: ascii_def)

lemma loop_session:
  "parse_loop init_state ex_session =
   Inr (init_state\<lparr>stock_map := [(7, [65, 66, 67])], openTime := 1, started := True,
     filled_orders := [(7, 100, 100, 5), (7, 200, 100, 3600000000005)],
     endTime := 25200000000000\<rparr>, [])"
proof -
  have "parse_loop init_state ex_session =
      parse_loop (init_state\<lparr>stock_map := [(7, [65, 66, 67])], openTime := 1, started := True,
        filled_orders := [(7, 100, 100, 5), (7, 200, 100, 3600000000005)]\<rparr>)
        (ascii CHR ''S'' # ex_close7 @ [])"
    unfolding ex_session_def using parse_loop_run [OF framed_day run_day] by simp
  also have "\<dots> = Inr (init_state\<lparr>stock_map := [(7, [65, 66, 67])], openTime := 1,
     started := True, filled_orders := [(7, 100, 100, 5), (7, 200, 100, 3600000000005)],
     endTime := 25200000000000\<rparr>, [])"
    by (subst parse_loop_message)
      (simp_all add: messageMap_tags process_tag on_S_close example_day_lengths example_day_fields)
  finally show ?thesis .
qed

lemma calc_day:
  "calculateHour 5 25200000000000 = ''10:00''" "calculateHour 4 25200000000000 = ''10:00''"
  "calculateHour 3600000000005 25200000000000 = ''11:00''"
  by (simp_all add: calculateHour_def nsPerHour_def hour_label_vals)

lemma orders_session:
  "parseOrders (hourlyMap [7] 1 25200000000000)
     [(7, 100, 100, 5), (7, 200, 100, 3600000000005)] 25200000000000 =
   Inr [(7, (init_hours Map.empty market_hours)
          (''10:00'' \<mapsto> (PyFloat 10000, 100), ''11:00'' \<mapsto> (PyFloat 20000, 100)))]"
  by (simp add: hourlyMap_one calc_day init_hours_all float_day float_session round53_day)

lemma vwap_day:
  "vwap_hours ((init_hours Map.empty market_hours)
      (''10:00'' \<mapsto> (PyFloat 10000, 100), ''11:00'' \<mapsto> (PyFloat 20000, 100)))
     market_hours (PyInt 0) 0 =
   Inr [(PyFloat 10000, 100, PyFloat 100), (PyFloat 30000, 200, PyFloat 150),
        (PyFloat 30000, 200, PyFloat 150), (PyFloat 30000, 200, PyFloat 150),
        (PyFloat 30000, 200, PyFloat 150), (PyFloat 30000, 200, PyFloat 150),
        (PyFloat 30000, 200, PyFloat 150)]"
  by (simp add: market_hours_def hour_label_vals init_hours_all VWAP_parts float_session
      float_day round53_vals round53_day)

lemma parseOrders_append:
  "parseOrders trades (xs @ ys) e_t =
    (case parseOrders trades xs e_t of Inl err \<Rightarrow> Inl err | Inr mid \<Rightarrow> parseOrders mid ys e_t)"
proof (induction xs arbitrary: trades)
  case Nil
  then show ?case by simp
next
  case (Cons x xs)
  obtain stock price quantity time where x: "x = (stock, price, quantity, time)"
    by (cases x)
  show ?case
    by (simp add: x Let_def Cons.IH split: option.splits prod.splits)
qed

lemma parseOrders_step:
  assumes "map_of trades stock = Some buckets"
    and "buckets (calculateHour time e_t) = Some (v, q)"
  shows "parseOrders trades ((stock, price, quantity, time) # later) e_t =
    parseOrders (AList.update stock
      (buckets(calculateHour time e_t \<mapsto>
         (py_add v (PyFloat (float_mul_int price quantity)), q + quantity))) trades) later e_t"
  using assms by (simp add: Let_def)

lemma process_appends:
  assumes "process t msg st = Inr c"
  shows "\<exists>more. filled_orders (ctl_state c) = filled_orders st @ more"
  using assms
  by (auto simp: process_def on_S_def on_R_def on_A_def on_F_def on_E_def
        on_C_def on_U_def on_P_def split: if_splits sum.splits option.splits)

lemma parse_loop_appends:
  "parse_loop st bs = Inr (st', unread) \<Longrightarrow> \<exists>more. filled_orders st' = filled_orders st @ more"
proof (induction st bs rule: parse_loop.induct)
  case (1 st)
  then show ?case by simp
next
  case (2 st m_type bs)
  show ?case
  proof (cases "messageMap m_type")
    case None
    with 2 show ?thesis
      by (auto simp: parse_loop.simps(2) split: if_splits)
  next
    case (Some steps)
    from "2.prems"(1) have hi: "\<not> 0x80 \<le> m_type"
      by (auto simp: parse_loop.simps(2) split: if_splits)
    from "2.prems"(1) Some hi obtain c where
      p: "process m_type (take steps bs) st = Inr c"
      by (auto simp: parse_loop.simps(2) split: sum.splits)
    from process_appends [OF p] obtain m1 where
      m1: "filled_orders (ctl_state c) = filled_orders st @ m1" by blast
    show ?thesis
    proof (cases c)
      case (Continue st1)
      with "2.prems"(1) Some hi p have "parse_loop st1 (drop steps bs) = Inr (st', unread)"
        by (simp add: parse_loop.simps(2))
      from "2.IH"(2) [OF hi Some p Continue this] obtain m2 where
        "filled_orders st' = filled_orders st1 @ m2" by blast
      with m1 Continue show ?thesis by simp
    next
      case (Break st1)
      with "2.prems"(1) Some hi p have "st' = st1"
        by (simp add: parse_loop.simps(2))
      with m1 Break show ?thesis by simp
    qed
  qed
qed

lemma round53_tiny:
  "round53 1 = 1"
  "round53 (1 / 10000) = 7378697629483821 / 73786976294838206464"
  "round53 (7378697629483821 / 73786976294838206464) = 7378697629483821 / 73786976294838206464"
  "round53 (7378697629483821 / 73786976294838206464 + 2005 / 2) =
     4409042067186411 / 4398046511104"
  "round53 (73971451114272931463981 / 73786976294838206464) = 4409042067186411 / 4398046511104"
  by code_simp+

lemma calc_late: "calculateHour 4 9 = ''4:00''"
  by (simp add: calculateHour_def nsPerHour_def hour_label_vals)

lemma orders_morning:
  "parseOrders (hourlyMap [7] 1 25200000000000) [(7, 100, 100, 5)] 25200000000000 =
   Inr [(7, (init_hours Map.empty market_hours)(''10:00'' \<mapsto> (PyFloat 10000, 100)))]"
  by (simp add: hourlyMap_one calc_day init_hours_all float_day float_session round53_day)

lemma example_undecodable:
  "length (ex_execute_price[30 := 0xFF]) = 35" "ex_execute_price[30 := 0xFF] ! 30 = 0xFF"
  "be_uint (field 31 4 (ex_execute_price[30 := 0xFF])) = 1002500"
  "be_uint (field 18 4 (ex_execute_price[30 := 0xFF])) = 10"
  by (simp_all add: ex_execute_price_def field_def be_uint_def)

lemma loop_printable:
  "parse_loop init_state
     (wire ex_morning @ ascii CHR ''C'' # ex_execute_price @ ascii CHR ''S'' # ex_close7) =
   Inr (init_state\<lparr>stock_map := [(7, [65, 66, 67])], openTime := 1, started := True,
     filled_orders := [(7, 100, 100, 5), (7, 401 / 4, 10, 4)],
     endTime := 25200000000000\<rparr>, [])"
proof -
  let ?st = "init_state\<lparr>stock_map := [(7, [65, 66, 67])], openTime := 1, started := True,
     filled_orders := [(7, 100, 100, 5)]\<rparr>"
  have "parse_loop init_state
     (wire ex_morning @ ascii CHR ''C'' # ex_execute_price @ ascii CHR ''S'' # ex_close7) =
     parse_loop ?st (ascii CHR ''C'' # ex_execute_price @ ascii CHR ''S'' # ex_close7)"
    by (rule parse_loop_run [OF framed_morning run_morning])
  also have "\<dots> = parse_loop (?st\<lparr>filled_orders := [(7, 100, 100, 5), (7, 401 / 4, 10, 4)]\<rparr>)
      (ascii CHR ''S'' # ex_close7 @ [])"
    by (subst parse_loop_message)
      (simp_all add: messageMap_tags on_C_printable example_lengths example_codes
        example_fields example_times float_session)
  also have "\<dots> = Inr (init_state\<lparr>stock_map := [(7, [65, 66, 67])], openTime := 1,
     started := True, filled_orders := [(7, 100, 100, 5), (7, 401 / 4, 10, 4)],
     endTime := 25200000000000\<rparr>, [])"
    by (subst parse_loop_message)
      (simp_all add: messageMap_tags process_tag on_S_close example_day_lengths example_day_fields)
  finally show ?thesis .
qed

text \<open>
  C4: when the decode loop and the aggregation end without an error, \<^verbatim>\<open>main\<close> returns one
  row for every security of the directory, in the order of the directory: its ticker and
  exactly seven numbers, one for each hour from 10 to 16 in this order. The loop carries a
  cumulative value and quantity: those of the first hour are its bucket added to zero,
  those of each later hour are the bucket of that hour added to those of the hour before.
  The number of an hour is the cumulative value divided by the cumulative quantity when
  that quantity is not zero, and the integer 0 otherwise; a security without any trade has
  seven times 0.
\<close>

theorem vwap_table_rows:
  assumes "parse_loop init_state file = Inr (st, unread)"
    and "parseOrders (hourlyMap (map fst (stock_map st)) (openTime st) (endTime st))
           (filled_orders st) (endTime st) = Inr trades"
  shows "\<exists>rows. main file = Inr rows \<and> length rows = length (stock_map st)
    \<and> (\<forall>i < length (stock_map st). \<exists>buckets hs.
          map_of trades (fst (stock_map st ! i)) = Some buckets
        \<and> vwap_hours buckets market_hours (PyInt 0) 0 = Inr hs
        \<and> rows ! i = (snd (stock_map st ! i), map (\<lambda>(v, q, vwap). vwap) hs)
        \<and> length (snd (rows ! i)) = 7
        \<and> (\<exists>bv bq. buckets (hour_label (market_hours ! 0)) = Some (bv, bq)
              \<and> fst (hs ! 0) = py_add bv (PyInt 0) \<and> fst (snd (hs ! 0)) = bq + 0)
        \<and> (\<forall>k. Suc k < 7 \<longrightarrow>
              (\<exists>bv bq. buckets (hour_label (market_hours ! Suc k)) = Some (bv, bq)
                 \<and> fst (hs ! Suc k) = py_add bv (fst (hs ! k))
                 \<and> fst (snd (hs ! Suc k)) = bq + fst (snd (hs ! k))))
        \<and> (\<forall>k < 7. snd (rows ! i) ! k =
              (if fst (snd (hs ! k)) \<noteq> 0 then py_truediv (fst (hs ! k)) (fst (snd (hs ! k)))
               else PyInt 0))
        \<and> (fst (stock_map st ! i) \<notin> fst ` set (filled_orders st) \<longrightarrow>
             snd (rows ! i) = replicate 7 (PyInt 0)))"
proof -
  let ?ids = "map fst (stock_map st)"
  let ?init = "init_hours Map.empty market_hours"
  have d: "distinct ?ids"
    using parse_loop_stock_map_distinct [OF assms(1)] by (simp add: init_state_def)
  have hm: "hourlyMap ?ids (openTime st) (endTime st) = map (\<lambda>i. (i, ?init)) ?ids"
    by (rule hourlyMap_distinct [OF d])
  have look0: "map_of (map (\<lambda>i. (i, ?init)) ?ids) k = Some ?init" if "k \<in> set ?ids" for k
    using that by (rule map_of_const)
  from parseOrders_keeps [OF assms(2)] hm have
    keys: "map fst trades = ?ids" and
    keep: "\<And>k. k \<in> set ?ids \<Longrightarrow> \<exists>b'. map_of trades k = Some b' \<and> dom b' = dom ?init
        \<and> (k \<notin> fst ` set (filled_orders st) \<longrightarrow> b' = ?init)"
    using look0 by (simp_all add: comp_def)
  have pt: "parseTrades file = Inr (stock_map st, trades)"
    using assms by (simp add: parseTrades_def)
  have ok: "\<forall>i \<in> set ?ids. i \<in> dom (map_of (stock_map st)) \<and>
      (\<exists>b. map_of trades i = Some b \<and> (\<forall>n \<in> set market_hours. hour_label n \<in> dom b))"
  proof
    fix i assume i: "i \<in> set ?ids"
    then have "i \<in> dom (map_of (stock_map st))"
      by (simp add: dom_map_of_conv_image_fst)
    moreover from keep [OF i] obtain b' where "map_of trades i = Some b'" "dom b' = dom ?init"
      by blast
    ultimately show "i \<in> dom (map_of (stock_map st)) \<and>
      (\<exists>b. map_of trades i = Some b \<and> (\<forall>n \<in> set market_hours. hour_label n \<in> dom b))"
      by (auto simp: dom_init_hours)
  qed
  from main_loop_rows [OF ok] obtain rows where
    rows: "main_loop (stock_map st) trades ?ids = Inr rows" and len: "length rows = length ?ids"
    and each: "\<forall>k < length ?ids. \<exists>ticker b hs. map_of (stock_map st) (?ids ! k) = Some ticker \<and>
        map_of trades (?ids ! k) = Some b \<and>
        vwap_hours b market_hours (PyInt 0) 0 = Inr hs \<and>
        rows ! k = (ticker, map (\<lambda>(v, q, vwap). vwap) hs)"
    by blast
  have m: "main file = Inr rows"
    using pt rows keys by (simp add: main_def)
  have "\<exists>buckets hs.
          map_of trades (fst (stock_map st ! i)) = Some buckets
        \<and> vwap_hours buckets market_hours (PyInt 0) 0 = Inr hs
        \<and> rows ! i = (snd (stock_map st ! i), map (\<lambda>(v, q, vwap). vwap) hs)
        \<and> length (snd (rows ! i)) = 7
        \<and> (\<exists>bv bq. buckets (hour_label (market_hours ! 0)) = Some (bv, bq)
              \<and> fst (hs ! 0) = py_add bv (PyInt 0) \<and> fst (snd (hs ! 0)) = bq + 0)
        \<and> (\<forall>k. Suc k < 7 \<longrightarrow>
              (\<exists>bv bq. buckets (hour_label (market_hours ! Suc k)) = Some (bv, bq)
                 \<and> fst (hs ! Suc k) = py_add bv (fst (hs ! k))
                 \<and> fst (snd (hs ! Suc k)) = bq + fst (snd (hs ! k))))
        \<and> (\<forall>k < 7. snd (rows ! i) ! k =
              (if fst (snd (hs ! k)) \<noteq> 0 then py_truediv (fst (hs ! k)) (fst (snd (hs ! k)))
               else PyInt 0))
        \<and> (fst (stock_map st ! i) \<notin> fst ` set (filled_orders st) \<longrightarrow>
             snd (rows ! i) = replicate 7 (PyInt 0))"
    if i: "i < length (stock_map st)" for i
  proof -
    let ?k = "fst (stock_map st ! i)"
    from i have idk: "?ids ! i = ?k" by simp
    from i have mem: "?k \<in> set ?ids" by simp
    from each i idk obtain ticker b hs where
      t: "map_of (stock_map st) ?k = Some ticker" and b: "map_of trades ?k = Some b"
      and hs: "vwap_hours b market_hours (PyInt 0) 0 = Inr hs"
      and row: "rows ! i = (ticker, map (\<lambda>(v, q, vwap). vwap) hs)"
      by (metis length_map)
    have "map_of (stock_map st) ?k = Some (snd (stock_map st ! i))"
      using d i by (metis map_of_eq_Some_iff nth_mem prod.collapse)
    with t have tk: "ticker = snd (stock_map st ! i)" by simp
    have l7: "length hs = 7"
      using vwap_hours_length [OF hs] by (simp add: market_hours_def)
    have zero: "snd (rows ! i) = replicate 7 (PyInt 0)" if "?k \<notin> fst ` set (filled_orders st)"
    proof -
      from keep [OF mem] b that have "b = ?init" by auto
      with hs vwap_hours_zero [of market_hours ?init] init_hours_market
      have "hs = replicate (length market_hours) (PyInt 0, 0, PyInt 0)" by simp
      moreover have "length market_hours = 7" by (simp add: market_hours_def)
      ultimately have "hs = replicate 7 (PyInt 0, 0, PyInt 0)" by simp
      then show ?thesis by (simp add: row)
    qed
    have num: "snd (rows ! i) ! k =
        (if fst (snd (hs ! k)) \<noteq> 0 then py_truediv (fst (hs ! k)) (fst (snd (hs ! k)))
         else PyInt 0)" if "k < 7" for k
    proof -
      from that l7 have mem: "hs ! k \<in> set hs" by simp
      obtain v q w where e: "hs ! k = (v, q, w)" by (cases "hs ! k")
      with vwap_hours_formula [OF hs] mem have "w = (if q \<noteq> 0 then py_truediv v q else PyInt 0)"
        by auto
      with e that l7 show ?thesis by (simp add: row)
    qed
    have l7': "length (snd (rows ! i)) = 7"
      using l7 by (simp add: row)
    note run = vwap_hours_running [OF hs]
    show ?thesis
    proof (rule exI [of _ b], rule exI [of _ hs], intro conjI)
      show "map_of trades ?k = Some b" by (rule b)
      show "vwap_hours b market_hours (PyInt 0) 0 = Inr hs" by (rule hs)
      show "rows ! i = (snd (stock_map st ! i), map (\<lambda>(v, q, vwap). vwap) hs)"
        using row tk by simp
      show "length (snd (rows ! i)) = 7" by (rule l7')
      show "\<exists>bv bq. b (hour_label (market_hours ! 0)) = Some (bv, bq)
              \<and> fst (hs ! 0) = py_add bv (PyInt 0) \<and> fst (snd (hs ! 0)) = bq + 0"
        using run by blast
      show "\<forall>k. Suc k < 7 \<longrightarrow>
              (\<exists>bv bq. b (hour_label (market_hours ! Suc k)) = Some (bv, bq)
                 \<and> fst (hs ! Suc k) = py_add bv (fst (hs ! k))
                 \<and> fst (snd (hs ! Suc k)) = bq + fst (snd (hs ! k)))"
        using run by blast
      show "\<forall>k < 7. snd (rows ! i) ! k =
              (if fst (snd (hs ! k)) \<noteq> 0 then py_truediv (fst (hs ! k)) (fst (snd (hs ! k)))
               else PyInt 0)"
        using num by blast
      show "fst (stock_map st ! i) \<notin> fst ` set (filled_orders st) \<longrightarrow>
             snd (rows ! i) = replicate 7 (PyInt 0)"
        using zero by blast
    qed
  qed
  with m len show ?thesis by simp
qed

theorem vwap_table_rows_witness:
  "\<exists>rows. main ex_session = Inr rows \<and> length rows = 1
     \<and> rows ! 0 = ([65, 66, 67],
           [PyFloat 100, PyFloat 150, PyFloat 150, PyFloat 150, PyFloat 150, PyFloat 150,
            PyFloat 150])"
proof -
  let ?st = "init_state\<lparr>stock_map := [(7, [65, 66, 67])], openTime := 1, started := True,
     filled_orders := [(7, 100, 100, 5), (7, 200, 100, 3600000000005)],
     endTime := 25200000000000\<rparr>"
  have o: "parseOrders (hourlyMap (map fst (stock_map ?st)) (openTime ?st) (endTime ?st))
      (filled_orders ?st) (endTime ?st) =
    Inr [(7, (init_hours Map.empty market_hours)
          (''10:00'' \<mapsto> (PyFloat 10000, 100), ''11:00'' \<mapsto> (PyFloat 20000, 100)))]"
    using orders_session by simp
  from vwap_table_rows [OF loop_session o] obtain rows buckets hs where
    "main ex_session = Inr rows" "length rows = 1"
    "buckets = (init_hours Map.empty market_hours)
          (''10:00'' \<mapsto> (PyFloat 10000, 100), ''11:00'' \<mapsto> (PyFloat 20000, 100))"
    "vwap_hours buckets market_hours (PyInt 0) 0 = Inr hs"
    "rows ! 0 = ([65, 66, 67], map (\<lambda>(v, q, vwap). vwap) hs)"
    by fastforce
  with vwap_day show ?thesis
    by auto
qed

text \<open>
  C8, as stated, fails where the bucket already holds a value: the value is a \<^verbatim>\<open>float\<close>
  and \<^verbatim>\<open>+=\<close> rounds. A trade of one share at the wire price 1 leaves the double nearest
  to 0.0001 in the bucket; after the trade of 10 shares at 100.25 the bucket holds the
  double nearest to the sum, and the two values do not differ by 1002.50.
\<close>

theorem execute_with_price_rounding_counterexample:
  "price_of 1 = 7378697629483821 / 73786976294838206464
   \<and> parseOrders (hourlyMap [7] 1 9) [(7, price_of 1, 1, 4)] 9 =
     Inr [(7, (init_hours Map.empty market_hours)
            (''4:00'' \<mapsto> (PyFloat (7378697629483821 / 73786976294838206464), 1)))]
   \<and> parseOrders (hourlyMap [7] 1 9) [(7, price_of 1, 1, 4), (7, 401 / 4, 10, 4)] 9 =
     Inr [(7, (init_hours Map.empty market_hours)
            (''4:00'' \<mapsto> (PyFloat (4409042067186411 / 4398046511104), 11)))]
   \<and> (4409042067186411 / 4398046511104 :: rat) - 7378697629483821 / 73786976294838206464
       \<noteq> 2005 / 2"
proof -
  have p: "price_of 1 = 7378697629483821 / 73786976294838206464"
    by (simp add: price_of_def int_truediv_def round53_tiny)
  have m: "float_mul_int (7378697629483821 / 73786976294838206464) 1 =
      7378697629483821 / 73786976294838206464"
    "float_mul_int (401 / 4) 10 = 2005 / 2"
    by (simp_all add: float_mul_int_def to_float_def round53_tiny round53_vals)
  have one: "parseOrders (hourlyMap [7] 1 9) [(7, price_of 1, 1, 4)] 9 =
     Inr [(7, (init_hours Map.empty market_hours)
            (''4:00'' \<mapsto> (PyFloat (7378697629483821 / 73786976294838206464), 1)))]"
    by (simp add: p hourlyMap_one calc_late init_hours_vals m to_float_def round53_vals
        round53_tiny)
  have two: "parseOrders (hourlyMap [7] 1 9) [(7, price_of 1, 1, 4), (7, 401 / 4, 10, 4)] 9 =
     Inr [(7, (init_hours Map.empty market_hours)
            (''4:00'' \<mapsto> (PyFloat (4409042067186411 / 4398046511104), 11)))]"
    by (simp add: p hourlyMap_one calc_late init_hours_vals m to_float_def round53_vals
        round53_tiny)
  have ne: "(4409042067186411 / 4398046511104 :: rat) - 7378697629483821 / 73786976294838206464
       \<noteq> 2005 / 2"
    by simp
  from p one two ne show ?thesis by blast
qed

text \<open>
  C8 (amended): an Order Executed With Price message with the wire price 1002500 and the
  quantity 10, read while the market is open. With the printable flag \<^verbatim>\<open>Y\<close> it appends
  one trade of price exactly 401/4 (100.25) and quantity 10, which stays in the collected
  trades to the end of the loop. Wherever the trade stands among the collected trades, the
  aggregation adds the term 2005/2 (exactly 1002.50) to the value its bucket has at that
  point, with Python's addition, and 10 to the quantity, and goes on with the trades after
  it: the new value is exactly 2005/2 on a fresh bucket and the double nearest to the
  exact sum on a bucket that holds a \<^verbatim>\<open>float\<close>. With any other flag below \<^verbatim>\<open>0x80\<close>
  the message contributes nothing: the loop and \<^verbatim>\<open>main\<close> give what they give on the
  stream without the message. A flag byte from \<^verbatim>\<open>0x80\<close> up aborts the run.
\<close>

theorem execute_with_price_contribution:
  assumes "list_all framed pre" and "run init_state pre = Inr (Continue st)"
    and "started st" and "length msg = 35"
    and "be_uint (field 31 4 msg) = 1002500" and "be_uint (field 18 4 msg) = 10"
  shows "(msg ! 30 = ascii CHR ''Y'' \<longrightarrow>
        process (ascii CHR ''C'') msg st =
          Inr (Continue (st\<lparr>filled_orders := filled_orders st @
            [(be_uint (field 0 2 msg), 401 / 4, 10, decodeTimestamp (field 4 6 msg))]\<rparr>))
        \<and> (\<forall>fin unread.
              parse_loop init_state (wire pre @ ascii CHR ''C'' # msg @ rest) = Inr (fin, unread) \<longrightarrow>
              (\<exists>later. filled_orders fin = filled_orders st @
                 (be_uint (field 0 2 msg), 401 / 4, 10, decodeTimestamp (field 4 6 msg)) # later)))
    \<and> (parseOrders trades (filled_orders st) e_t = Inr mid
        \<and> map_of mid (be_uint (field 0 2 msg)) = Some buckets
        \<and> buckets (calculateHour (decodeTimestamp (field 4 6 msg)) e_t) = Some (v, q) \<longrightarrow>
        parseOrders trades (filled_orders st @
            (be_uint (field 0 2 msg), 401 / 4, 10, decodeTimestamp (field 4 6 msg)) # later) e_t =
          parseOrders (AList.update (be_uint (field 0 2 msg))
            (buckets(calculateHour (decodeTimestamp (field 4 6 msg)) e_t \<mapsto>
               (py_add v (PyFloat (2005 / 2)), q + 10))) mid) later e_t)
    \<and> py_add (PyInt 0) (PyFloat (2005 / 2)) = PyFloat (2005 / 2)
    \<and> py_add (PyFloat x) (PyFloat (2005 / 2)) = PyFloat (round53 (x + 2005 / 2))
    \<and> (msg ! 30 \<noteq> ascii CHR ''Y'' \<and> msg ! 30 < 0x80 \<longrightarrow>
        process (ascii CHR ''C'') msg st = Inr (Continue st)
        \<and> parse_loop init_state (wire pre @ ascii CHR ''C'' # msg @ rest) =
            parse_loop init_state (wire pre @ rest)
        \<and> main (wire pre @ ascii CHR ''C'' # msg @ rest) = main (wire pre @ rest))
    \<and> (0x80 \<le> msg ! 30 \<longrightarrow>
        main (wire pre @ ascii CHR ''C'' # msg @ rest) = Inl UnicodeDecodeError)"
proof -
  let ?T = "(be_uint (field 0 2 msg), 401 / 4 :: rat, 10 :: int, decodeTimestamp (field 4 6 msg))"
  let ?C = "ascii CHR ''C''"
  have len: "messageMap ?C = Some (length msg)"
    using assms(4) by (simp add: messageMap_tags)
  have reach: "parse_loop init_state (wire pre @ ?C # msg @ rest) = parse_loop st (?C # msg @ rest)"
    by (rule parse_loop_run [OF assms(1,2)])
  have a: "process ?C msg st = Inr (Continue (st\<lparr>filled_orders := filled_orders st @ [?T]\<rparr>))
      \<and> (\<forall>fin unread.
            parse_loop init_state (wire pre @ ?C # msg @ rest) = Inr (fin, unread) \<longrightarrow>
            (\<exists>later. filled_orders fin = filled_orders st @ ?T # later))"
    if y: "msg ! 30 = ascii CHR ''Y''"
  proof -
    have p: "process ?C msg st = Inr (Continue (st\<lparr>filled_orders := filled_orders st @ [?T]\<rparr>))"
      using on_C_printable [OF assms(3,4) y] assms(5,6) by (simp add: float_session)
    have "\<exists>later. filled_orders fin = filled_orders st @ ?T # later"
      if r: "parse_loop init_state (wire pre @ ?C # msg @ rest) = Inr (fin, unread)"
      for fin unread
    proof -
      from r reach p have
        "parse_loop (st\<lparr>filled_orders := filled_orders st @ [?T]\<rparr>) rest = Inr (fin, unread)"
        by (simp add: parse_loop_message [OF len])
      from parse_loop_appends [OF this] show ?thesis by auto
    qed
    with p show ?thesis by blast
  qed
  have b: "parseOrders trades (filled_orders st @ ?T # later) e_t =
          parseOrders (AList.update (be_uint (field 0 2 msg))
            (buckets(calculateHour (decodeTimestamp (field 4 6 msg)) e_t \<mapsto>
               (py_add v (PyFloat (2005 / 2)), q + 10))) mid) later e_t"
    if "parseOrders trades (filled_orders st) e_t = Inr mid"
      "map_of mid (be_uint (field 0 2 msg)) = Some buckets"
      "buckets (calculateHour (decodeTimestamp (field 4 6 msg)) e_t) = Some (v, q)"
    using that parseOrders_step [OF that(2,3), of "401 / 4" 10 later]
    by (simp add: parseOrders_append float_session del: parseOrders.simps)
  have c: "py_add (PyInt 0) (PyFloat (2005 / 2)) = PyFloat (2005 / 2)"
    by (simp add: float_session round53_vals)
  have d: "py_add (PyFloat x) (PyFloat (2005 / 2)) = PyFloat (round53 (x + 2005 / 2))"
    by simp
  have e: "process ?C msg st = Inr (Continue st)
        \<and> parse_loop init_state (wire pre @ ?C # msg @ rest) =
            parse_loop init_state (wire pre @ rest)
        \<and> main (wire pre @ ?C # msg @ rest) = main (wire pre @ rest)"
    if n: "msg ! 30 \<noteq> ascii CHR ''Y''" "msg ! 30 < 0x80"
  proof -
    from n(2) have "\<not> 0x80 \<le> msg ! 30" by (simp add: not_le)
    with on_C_hidden [OF assms(3,4) n(1)] have p: "process ?C msg st = Inr (Continue st)"
      by simp
    have "parse_loop init_state (wire pre @ rest) = parse_loop st rest"
      by (rule parse_loop_run [OF assms(1,2)])
    with reach p have l: "parse_loop init_state (wire pre @ ?C # msg @ rest) =
        parse_loop init_state (wire pre @ rest)"
      by (simp add: parse_loop_message [OF len])
    then have "main (wire pre @ ?C # msg @ rest) = main (wire pre @ rest)"
      by (simp add: main_def parseTrades_def)
    with p l show ?thesis by simp
  qed
  have f: "main (wire pre @ ?C # msg @ rest) = Inl UnicodeDecodeError" if h: "0x80 \<le> msg ! 30"
  proof -
    from h have "msg ! 30 \<noteq> ascii CHR ''Y''" by (auto simp: ascii_def)
    with on_C_hidden [OF assms(3,4)] h have "process ?C msg st = Inl UnicodeDecodeError"
      by simp
    with reach have "parse_loop init_state (wire pre @ ?C # msg @ rest) = Inl UnicodeDecodeError"
      by (simp add: parse_loop_message [OF len])
    then show ?thesis by (rule main_error [OF parseTrades_error])
  qed
  from a b c d e f show ?thesis by blast
qed

theorem execute_with_price_contribution_witness:
  "process (ascii CHR ''C'') ex_execute_price
     (init_state\<lparr>stock_map := [(7, [65, 66, 67])], openTime := 1, started := True,
        filled_orders := [(7, 100, 100, 5)]\<rparr>) =
     Inr (Continue (init_state\<lparr>stock_map := [(7, [65, 66, 67])], openTime := 1,
        started := True, filled_orders := [(7, 100, 100, 5), (7, 401 / 4, 10, 4)]\<rparr>))
   \<and> (\<exists>later. filled_orders (init_state\<lparr>stock_map := [(7, [65, 66, 67])], openTime := 1,
          started := True, filled_orders := [(7, 100, 100, 5), (7, 401 / 4, 10, 4)],
          endTime := 25200000000000\<rparr>) = [(7, 100, 100, 5)] @ (7, 401 / 4, 10, 4) # later)
   \<and> parseOrders (hourlyMap [7] 1 25200000000000) [(7, 100, 100, 5), (7, 401 / 4, 10, 4)]
       25200000000000 =
     Inr [(7, (init_hours Map.empty market_hours)(''10:00'' \<mapsto> (PyFloat (22005 / 2), 110)))]
   \<and> main (wire ex_morning @ ascii CHR ''C'' # ex_execute_hidden @ ascii CHR ''S'' # ex_close7) =
     main (wire ex_morning @ ascii CHR ''S'' # ex_close7)
   \<and> main (wire ex_morning @ ascii CHR ''C'' # ex_execute_price[30 := 0xFF]
       @ ascii CHR ''S'' # ex_close7) = Inl UnicodeDecodeError"
proof -
  let ?st = "init_state\<lparr>stock_map := [(7, [65, 66, 67])], openTime := 1, started := True,
     filled_orders := [(7, 100, 100, 5)]\<rparr>"
  let ?b = "(init_hours Map.empty market_hours)(''10:00'' \<mapsto> (PyFloat 10000, 100))"
  let ?rest = "ascii CHR ''S'' # ex_close7"
  have s: "started ?st" by simp
  note shown = execute_with_price_contribution
      [OF framed_morning run_morning s example_lengths(7) example_fields(11) example_fields(10),
        where rest = ?rest and trades = "hourlyMap [7] 1 25200000000000" and e_t = 25200000000000
          and mid = "[(7, ?b)]" and buckets = ?b and v = "PyFloat 10000" and q = 100
          and later = "[]" and x = 10000]
  note hidden = execute_with_price_contribution
      [OF framed_morning run_morning s example_hidden(1) example_hidden(3) example_hidden(4),
        where rest = ?rest]
  note broken = execute_with_price_contribution
      [OF framed_morning run_morning s example_undecodable(1) example_undecodable(3)
        example_undecodable(4), where rest = ?rest]
  from shown have 0: "process (ascii CHR ''C'') ex_execute_price ?st =
     Inr (Continue (?st\<lparr>filled_orders := [(7, 100, 100, 5), (7, 401 / 4, 10, 4)]\<rparr>))"
    by (simp add: example_codes example_fields example_times)
  from shown loop_printable have 1:
    "\<exists>later. filled_orders (init_state\<lparr>stock_map := [(7, [65, 66, 67])], openTime := 1,
          started := True, filled_orders := [(7, 100, 100, 5), (7, 401 / 4, 10, 4)],
          endTime := 25200000000000\<rparr>) = [(7, 100, 100, 5)] @ (7, 401 / 4, 10, 4) # later"
    by (simp add: example_codes example_fields example_times)
  from shown orders_morning have 2:
    "parseOrders (hourlyMap [7] 1 25200000000000) [(7, 100, 100, 5), (7, 401 / 4, 10, 4)]
       25200000000000 =
     Inr [(7, (init_hours Map.empty market_hours)(''10:00'' \<mapsto> (PyFloat (22005 / 2), 110)))]"
    by (simp add: example_codes example_fields example_times calc_day round53_day
        del: parseOrders.simps(2))
  have n: "ascii CHR ''N'' \<noteq> ascii CHR ''Y''" "ascii CHR ''N'' < 0x80"
    by (simp_all add: ascii_def)
  from hidden n have 3:
    "main (wire ex_morning @ ascii CHR ''C'' # ex_execute_hidden @ ?rest) =
     main (wire ex_morning @ ?rest)"
    by (simp add: example_hidden)
  from broken have 4:
    "main (wire ex_morning @ ascii CHR ''C'' # ex_execute_price[30 := 0xFF] @ ?rest) =
     Inl UnicodeDecodeError"
    by (simp add: example_undecodable)
  from 0 1 2 3 4 show ?thesis by simp
qed

end
